theory Spec2Isabelle
  imports Complex_Main "HOL-Library.Multiset"
begin

section \<open>Text primitives of the Python runtime\<close>

text \<open>
  Python strings are modelled as \<^typ>\<open>string\<close>; a character stands for the code point
  with the same number, so the model covers the code points 0 to 255. Both
  \<^verbatim>\<open>str.strip()\<close> and the regular expression class \<^verbatim>\<open>\s\<close> use the same
  whitespace test; in this range it holds for 9 to 13, 28 to 32, 133 and 160.
\<close>

definition is_space :: "char \<Rightarrow> bool" where
  "is_space c =
     (let n = (of_char c :: nat)
      in (9 \<le> n \<and> n \<le> 13) \<or> (28 \<le> n \<and> n \<le> 32) \<or> n = 133 \<or> n = 160)"

text \<open>\<^verbatim>\<open>s.strip()\<close>: drop the whitespace at both ends.\<close>

definition strip :: "string \<Rightarrow> string" where
  "strip s = rev (dropWhile is_space (rev (dropWhile is_space s)))"

text \<open>
  \<^verbatim>\<open>re.sub(r"\s+", " ", s)\<close>: every maximal run of whitespace is replaced by one
  space character.
\<close>

function sub_spaces :: "string \<Rightarrow> string" where
  "sub_spaces [] = []"
| "sub_spaces (c # cs) =
     (if is_space c then CHR '' '' # sub_spaces (dropWhile is_space cs)
      else c # sub_spaces cs)"
  by pat_completeness auto
termination
  by (relation "measure length") (auto simp: less_Suc_eq_le length_dropWhile_le)

text \<open>
  \<^verbatim>\<open>s.split(c)\<close> with a one-character separator: the pieces between the separators,
  always at least one piece.
\<close>

fun split_on :: "char \<Rightarrow> string \<Rightarrow> string list" where
  "split_on c [] = [[]]"
| "split_on c (x # xs) =
     (if x = c then [] # split_on c xs
      else (case split_on c xs of [] \<Rightarrow> [[x]] | p # ps \<Rightarrow> (x # p) # ps))"

text \<open>
  \<^verbatim>\<open>s.zfill(width)\<close>: pad with zeros on the left up to the width; a leading sign stays
  in front of the zeros.
\<close>

definition zfill :: "nat \<Rightarrow> string \<Rightarrow> string" where
  "zfill width s =
     (if width \<le> length s then s
      else (case s of
              c # cs \<Rightarrow>
                (if c = CHR ''+'' \<or> c = CHR ''-''
                 then c # replicate (width - length s) CHR ''0'' @ cs
                 else replicate (width - length s) CHR ''0'' @ s)
            | [] \<Rightarrow> replicate width CHR ''0''))"

text \<open>\<^verbatim>\<open>s.startswith(p)\<close> and the substring test \<^verbatim>\<open>p in s\<close>.\<close>

definition startswith :: "string \<Rightarrow> string \<Rightarrow> bool" where
  "startswith s p = (take (length p) s = p)"

fun str_contains :: "string \<Rightarrow> string \<Rightarrow> bool" where
  "str_contains [] p = (p = [])"
| "str_contains (c # cs) p = (startswith (c # cs) p \<or> str_contains cs p)"

text \<open>\<^verbatim>\<open>s.lower()\<close> on the code points 0 to 255.\<close>

definition lower_char :: "char \<Rightarrow> char" where
  "lower_char c =
     (let n = (of_char c :: nat)
      in if (65 \<le> n \<and> n \<le> 90) \<or> (192 \<le> n \<and> n \<le> 222 \<and> n \<noteq> 215)
         then char_of (n + 32) else c)"

definition lower :: "string \<Rightarrow> string" where
  "lower s = map lower_char s"

text \<open>
  A row read by \<^verbatim>\<open>csv.DictReader\<close> is a dictionary from column names to text.
  \<^verbatim>\<open>r.get(k, d)\<close> is the value stored under \<^verbatim>\<open>k\<close>, or \<^verbatim>\<open>d\<close> when the column is
  absent; \<^verbatim>\<open>r.get(k)\<close> is \<^verbatim>\<open>None\<close> then.
\<close>

type_synonym row = "string \<rightharpoonup> string"

definition get_or :: "row \<Rightarrow> string \<Rightarrow> string \<Rightarrow> string" where
  "get_or r k d = (case r k of None \<Rightarrow> d | Some v \<Rightarrow> v)"


text \<open>Decimal digits and the number a digit string denotes (\<^verbatim>\<open>int(s)\<close> on digits).\<close>

definition is_digit :: "char \<Rightarrow> bool" where
  "is_digit c = (let n = (of_char c :: nat) in 48 \<le> n \<and> n \<le> 57)"

definition digit_val :: "char \<Rightarrow> nat" where
  "digit_val c = of_char c - 48"

definition nat_of_digits :: "string \<Rightarrow> nat" where
  "nat_of_digits ds = foldl (\<lambda>n c. 10 * n + digit_val c) 0 ds"

text \<open>\<^verbatim>\<open>str(n)\<close> for a natural number: its decimal digits, most significant first.\<close>

fun digits_of :: "nat \<Rightarrow> string" where
  "digits_of n =
     (if n < 10 then [char_of (48 + n)]
      else digits_of (n div 10) @ [char_of (48 + n mod 10)])"

declare digits_of.simps [simp del]

section \<open>The normalizer of the converter\<close>

text \<open>
  \<^verbatim>\<open>
  def _norm_spaces(s: str) -> str:
      s = (s or "").strip()
      s = re.sub(r"\s+", " ", s)
      return s
  \<close>
  On a string, \<^verbatim>\<open>s or ""\<close> is \<^verbatim>\<open>s\<close>.
\<close>

definition norm_spaces :: "string \<Rightarrow> string" where
  "norm_spaces s = sub_spaces (strip s)"

text \<open>Two neighbouring whitespace characters somewhere in a string.\<close>

fun adjacent_spaces :: "string \<Rightarrow> bool" where
  "adjacent_spaces (a # b # cs) = ((is_space a \<and> is_space b) \<or> adjacent_spaces (b # cs))"
| "adjacent_spaces _ = False"


section \<open>Number syntax shared by the decimal and the float conversion\<close>

text \<open>An optional sign: whether it is a minus, and the rest of the text.\<close>

definition take_sign :: "string \<Rightarrow> bool \<times> string" where
  "take_sign s =
     (case s of
        c # cs \<Rightarrow> if c = CHR ''-'' then (True, cs) else if c = CHR ''+'' then (False, cs)
                  else (False, s)
      | [] \<Rightarrow> (False, s))"

text \<open>
  The exponent part after the letter: an optional sign and at least one digit, up to the
  end of the text.
\<close>

definition exponent_of :: "string \<Rightarrow> int option" where
  "exponent_of s =
     (let (neg, ds) = take_sign s
      in if ds \<noteq> [] \<and> list_all is_digit ds
         then Some (if neg then - int (nat_of_digits ds) else int (nat_of_digits ds))
         else None)"

text \<open>
  A decimal literal: integer digits, an optional point with fraction digits, an optional
  exponent. The result is the digit string of integer and fraction part together, the
  number of fraction digits, whether a point was there, and the exponent.
\<close>

definition literal_of :: "string \<Rightarrow> (string \<times> string \<times> bool \<times> int) option" where
  "literal_of s =
     (let ip = takeWhile is_digit s; r1 = dropWhile is_digit s;
          (dot, fp, r2) =
            (case r1 of
               c # r \<Rightarrow> if c = CHR ''.'' then (True, takeWhile is_digit r, dropWhile is_digit r)
                         else (False, [], r1)
             | [] \<Rightarrow> (False, [], r1))
      in case r2 of
           [] \<Rightarrow> Some (ip, fp, dot, 0)
         | c # r3 \<Rightarrow>
             if c = CHR ''e'' \<or> c = CHR ''E''
             then map_option (\<lambda>e. (ip, fp, dot, e)) (exponent_of r3)
             else None)"


text \<open>
  The integer nearest to the fraction \<open>a / b\<close>, a tie going to the even neighbour
  (\<^verbatim>\<open>ROUND_HALF_EVEN\<close>, and the rounding of binary64).
\<close>

definition round_half_even :: "nat \<Rightarrow> nat \<Rightarrow> nat" where
  "round_half_even a b =
     (let q = a div b; r = a mod b
      in if 2 * r < b then q
         else if b < 2 * r then q + 1
         else if even q then q else q + 1)"

section \<open>Python's decimal numbers\<close>

text \<open>
  A \<^verbatim>\<open>Decimal\<close> is a finite number (sign, coefficient, exponent: the value is the
  coefficient times ten to the exponent, negated when the sign is set), an infinity, or a
  quiet or signalling NaN with a sign and a payload. Exponents are unbounded integers, as
  in the reference implementation of the module; the limits an implementation puts on
  literals with exponents of nineteen or more digits are outside the model.
\<close>

datatype decimal =
    Finite bool nat int
  | Infinity bool
  | QNaN bool nat
  | SNaN bool nat

text \<open>The exceptions of the decimal module that the default context raises.\<close>

datatype exn = InvalidOperation | Overflow

text \<open>
  The default context: 28 digits of precision, exponents from \<open>-999999\<close> to \<open>999999\<close>,
  rounding half to even, no clamping; \<^verbatim>\<open>Etiny\<close> and \<^verbatim>\<open>Etop\<close> are the least and
  the greatest exponent of a result with full precision.
\<close>

definition prec :: nat where "prec = 28"
definition Emax :: int where "Emax = 999999"
definition Emin :: int where "Emin = - 999999"
definition Etiny :: int where "Etiny = Emin - int prec + 1"
definition Etop :: int where "Etop = Emax - int prec + 1"

text \<open>
  \<^verbatim>\<open>Decimal(s)\<close> on a string: the text is trimmed, every underscore is removed, and
  the rest has to be an optional sign followed by a decimal literal, by \<^verbatim>\<open>Inf\<close> or
  \<^verbatim>\<open>Infinity\<close>, or by \<^verbatim>\<open>NaN\<close> or \<^verbatim>\<open>sNaN\<close> with optional payload digits, in any
  letter case. Anything else raises \<^verbatim>\<open>InvalidOperation\<close>. The conversion is exact.
\<close>

definition Decimal_of :: "string \<Rightarrow> exn + decimal" where
  "Decimal_of v =
     (let (neg, body) = take_sign (filter (\<lambda>c. c \<noteq> CHR ''_'') (strip v))
      in if lower body = ''inf'' \<or> lower body = ''infinity'' then Inr (Infinity neg)
         else if lower (take 3 body) = ''nan'' \<and> list_all is_digit (drop 3 body)
           then Inr (QNaN neg (nat_of_digits (drop 3 body)))
         else if lower (take 4 body) = ''snan'' \<and> list_all is_digit (drop 4 body)
           then Inr (SNaN neg (nat_of_digits (drop 4 body)))
         else (case literal_of body of
                 None \<Rightarrow> Inl InvalidOperation
               | Some (ip, fp, dot, e) \<Rightarrow>
                   if ip = [] \<and> fp = [] then Inl InvalidOperation
                   else Inr (Finite neg (nat_of_digits (ip @ fp)) (e - int (length fp)))))"

text \<open>
  \<^verbatim>\<open>
  def _parse_decimal(s: str) -> Decimal:
      s = (s or "").strip()
      if not s:
          return Decimal(0)
      # Remove thousands separators
      s = s.replace(",", "")
      try:
          return Decimal(s)
      except InvalidOperation:
          return Decimal(0)
  \<close>
  The handler catches \<^verbatim>\<open>InvalidOperation\<close> only; any other exception would leave the
  function.
\<close>

definition parse_decimal :: "string \<Rightarrow> exn + decimal" where
  "parse_decimal s0 =
     (let s = strip s0
      in if s = [] then Inr (Finite False 0 0)
         else (case Decimal_of (filter (\<lambda>c. c \<noteq> CHR '','') s) of
                 Inl InvalidOperation \<Rightarrow> Inr (Finite False 0 0)
               | Inl e \<Rightarrow> Inl e
               | Inr d \<Rightarrow> Inr d))"

text \<open>
  Rounding a finite non-special number to the context (\<^verbatim>\<open>Decimal._fix\<close>): a zero gets
  its exponent clamped; a number whose adjusted exponent exceeds \<^verbatim>\<open>Emax\<close> raises
  \<^verbatim>\<open>Overflow\<close>; a coefficient with digits below the least exponent allowed for it is
  rounded half to even. The result is the new coefficient and exponent.
\<close>

definition fix_finite :: "nat \<Rightarrow> int \<Rightarrow> exn + (nat \<times> int)" where
  "fix_finite c e =
     (if c = 0 then Inr (0, min (max e Etiny) Emax)
      else
        let exp_min0 = int (length (digits_of c)) + e - int prec
        in if Etop < exp_min0 then Inl Overflow
           else
             let exp_min = (if exp_min0 < Etiny then Etiny else exp_min0)
             in if e < exp_min then
                  let q = round_half_even c (10 ^ nat (exp_min - e));
                      (coeff, exp_min') =
                        (if prec < length (digits_of q) then (q div 10, exp_min + 1)
                         else (q, exp_min))
                  in if Etop < exp_min' then Inl Overflow else Inr (coeff, exp_min')
                else Inr (c, e))"

text \<open>
  The loop of \<^verbatim>\<open>Decimal.normalize\<close> that removes trailing zeros of a non-zero
  coefficient while the exponent is below \<^verbatim>\<open>Emax\<close>.
\<close>

function strip_zeros :: "nat \<Rightarrow> int \<Rightarrow> nat \<times> int" where
  "strip_zeros c e =
     (if c \<noteq> 0 \<and> c mod 10 = 0 \<and> e < Emax then strip_zeros (c div 10) (e + 1) else (c, e))"
  by pat_completeness auto
termination
  by (relation "measure fst") auto

declare strip_zeros.simps [simp del]

text \<open>
  \<^verbatim>\<open>x.normalize()\<close> in the default context (named \<open>normalize_dec\<close> here, as HOL
  has a \<open>normalize\<close> of its own): a signalling NaN raises \<^verbatim>\<open>InvalidOperation\<close>, a quiet NaN keeps the last 28 digits of its payload, an infinity
  is unchanged, a finite number is rounded to the context and loses its trailing zeros,
  and every zero becomes the zero with exponent 0.
\<close>

definition normalize_dec :: "decimal \<Rightarrow> exn + decimal" where
  "normalize_dec x =
     (case x of
        SNaN s p \<Rightarrow> Inl InvalidOperation
      | QNaN s p \<Rightarrow> Inr (QNaN s (p mod 10 ^ prec))
      | Infinity s \<Rightarrow> Inr (Infinity s)
      | Finite s c e \<Rightarrow>
          (case fix_finite c e of
             Inl err \<Rightarrow> Inl err
           | Inr (c', e') \<Rightarrow>
               if c' = 0 then Inr (Finite s 0 0)
               else (case strip_zeros c' e' of (c'', e'') \<Rightarrow> Inr (Finite s c'' e''))))"

text \<open>
  \<^verbatim>\<open>format(x, "f")\<close>: a minus sign for a negative value, then the digits in positional
  notation, with a point only when fraction digits follow it; the special values are
  written \<^verbatim>\<open>Infinity\<close>, \<^verbatim>\<open>NaN\<close> and \<^verbatim>\<open>sNaN\<close> with the payload digits.
\<close>

definition format_f :: "decimal \<Rightarrow> string" where
  "format_f x =
     (case x of
        Infinity s \<Rightarrow> (if s then ''-'' else '''') @ ''Infinity''
      | QNaN s p \<Rightarrow> (if s then ''-'' else '''') @ ''NaN'' @ (if p = 0 then '''' else digits_of p)
      | SNaN s p \<Rightarrow> (if s then ''-'' else '''') @ ''sNaN'' @ (if p = 0 then '''' else digits_of p)
      | Finite s c e0 \<Rightarrow>
          let e = (if c = 0 \<and> 0 < e0 then 0 else e0);
              ds = digits_of c;
              dotplace = int (length ds) + e;
              (intpart, fracpart) =
                (if dotplace < 0 then (''0'', replicate (nat (- dotplace)) CHR ''0'' @ ds)
                 else if int (length ds) < dotplace
                   then (ds @ replicate (nat (dotplace - int (length ds))) CHR ''0'', '''')
                 else ((if take (nat dotplace) ds = [] then ''0'' else take (nat dotplace) ds),
                       drop (nat dotplace) ds))
          in (if s then ''-'' else '''') @ intpart
             @ (if fracpart = [] then '''' else ''.'' @ fracpart))"

text \<open>\<^verbatim>\<open>s.rstrip(c)\<close> for a single character.\<close>

definition rstrip_char :: "char \<Rightarrow> string \<Rightarrow> string" where
  "rstrip_char c s = rev (dropWhile (\<lambda>x. x = c) (rev s))"

text \<open>
  \<^verbatim>\<open>
  def _fmt_decimal(x: Decimal) -> str:
      s = format(x.normalize(), "f")
      if "." in s:
          s = s.rstrip("0").rstrip(".")
      return s if s else "0"
  \<close>
\<close>

definition fmt_decimal :: "decimal \<Rightarrow> exn + string" where
  "fmt_decimal x =
     (case normalize_dec x of
        Inl err \<Rightarrow> Inl err
      | Inr n \<Rightarrow>
          let s = format_f n;
              s' = (if CHR ''.'' \<in> set s then rstrip_char CHR ''.'' (rstrip_char CHR ''0'' s) else s)
          in Inr (if s' = [] then ''0'' else s'))"

text \<open>
  The comparison \<^verbatim>\<open>a == b\<close> of two decimals: a signalling NaN raises
  \<^verbatim>\<open>InvalidOperation\<close>, a quiet NaN is equal to nothing, and numbers are compared by
  value (every zero equals every zero). \<^verbatim>\<open>x != 0\<close> is its negation against the zero.
\<close>

definition dec_eq :: "decimal \<Rightarrow> decimal \<Rightarrow> exn + bool" where
  "dec_eq a b =
     (case (a, b) of
        (SNaN _ _, _) \<Rightarrow> Inl InvalidOperation
      | (_, SNaN _ _) \<Rightarrow> Inl InvalidOperation
      | (QNaN _ _, _) \<Rightarrow> Inr False
      | (_, QNaN _ _) \<Rightarrow> Inr False
      | (Infinity s, Infinity t) \<Rightarrow> Inr (s = t)
      | (Infinity _, Finite _ _ _) \<Rightarrow> Inr False
      | (Finite _ _ _, Infinity _) \<Rightarrow> Inr False
      | (Finite s c e, Finite t d f) \<Rightarrow>
          Inr (if c = 0 \<or> d = 0 then c = d
               else s = t \<and> c * 10 ^ nat (e - min e f) = d * 10 ^ nat (f - min e f)))"


section \<open>Dates of the converter\<close>

text \<open>
  A calendar date is a year from 1 to 9999, a month and a day of that month
  (\<^verbatim>\<open>datetime.date\<close>); building any other date raises \<^verbatim>\<open>ValueError\<close>.
\<close>

definition is_leap :: "nat \<Rightarrow> bool" where
  "is_leap y = (y mod 4 = 0 \<and> (y mod 100 \<noteq> 0 \<or> y mod 400 = 0))"

definition days_in_month :: "nat \<Rightarrow> nat \<Rightarrow> nat" where
  "days_in_month y m =
     (if m = 2 then (if is_leap y then 29 else 28)
      else if m = 4 \<or> m = 6 \<or> m = 9 \<or> m = 11 then 30 else 31)"

definition valid_date :: "nat \<Rightarrow> nat \<Rightarrow> nat \<Rightarrow> bool" where
  "valid_date y m d =
     (1 \<le> y \<and> y \<le> 9999 \<and> 1 \<le> m \<and> m \<le> 12 \<and> 1 \<le> d \<and> d \<le> days_in_month y m)"

text \<open>\<^verbatim>\<open>d.isoformat()\<close>: year, month and day with 4, 2 and 2 digits, zero-padded.\<close>

definition pad_zeros :: "nat \<Rightarrow> string \<Rightarrow> string" where
  "pad_zeros n s = replicate (n - length s) CHR ''0'' @ s"

definition isoformat :: "nat \<times> nat \<times> nat \<Rightarrow> string" where
  "isoformat ymd =
     (case ymd of (y, m, d) \<Rightarrow>
        pad_zeros 4 (digits_of y) @ ''-'' @ pad_zeros 2 (digits_of m) @ ''-''
        @ pad_zeros 2 (digits_of d))"

text \<open>
  The day and month fields of \<^verbatim>\<open>strptime\<close>. The directive \<^verbatim>\<open>%d\<close> matches
  \<^verbatim>\<open>3[0-1]|[1-2]\d|0[1-9]|[1-9]| [1-9]\<close> and \<^verbatim>\<open>%m\<close> matches
  \<^verbatim>\<open>1[0-2]|0[1-9]|[1-9]\<close>; in both formats of the converter the field is followed by
  a slash, so the field is the text up to the next slash.
\<close>

definition is_digit19 :: "char \<Rightarrow> bool" where
  "is_digit19 c = (is_digit c \<and> c \<noteq> CHR ''0'')"

definition day_field :: "string \<Rightarrow> nat option" where
  "day_field t =
     (case t of
        [a] \<Rightarrow> if is_digit19 a then Some (digit_val a) else None
      | [a, b] \<Rightarrow>
          if a = CHR ''3'' \<and> (b = CHR ''0'' \<or> b = CHR ''1'') then Some (30 + digit_val b)
          else if (a = CHR ''1'' \<or> a = CHR ''2'') \<and> is_digit b
            then Some (10 * digit_val a + digit_val b)
          else if (a = CHR ''0'' \<or> a = CHR '' '') \<and> is_digit19 b then Some (digit_val b)
          else None
      | _ \<Rightarrow> None)"

definition month_field :: "string \<Rightarrow> nat option" where
  "month_field t =
     (case t of
        [a] \<Rightarrow> if is_digit19 a then Some (digit_val a) else None
      | [a, b] \<Rightarrow>
          if a = CHR ''1'' \<and> (b = CHR ''0'' \<or> b = CHR ''1'' \<or> b = CHR ''2'')
            then Some (10 + digit_val b)
          else if a = CHR ''0'' \<and> is_digit19 b then Some (digit_val b)
          else None
      | _ \<Rightarrow> None)"

text \<open>
  The year field: \<^verbatim>\<open>%Y\<close> is exactly four digits; \<^verbatim>\<open>%y\<close> is exactly two digits, and
  a value up to 68 is a year of the 2000s while 69 to 99 are years of the 1900s. Text
  after the year is not accepted.
\<close>

definition year_field :: "bool \<Rightarrow> string \<Rightarrow> nat option" where
  "year_field four t =
     (if four then
        (if length t = 4 \<and> list_all is_digit t then Some (nat_of_digits t) else None)
      else
        (if length t = 2 \<and> list_all is_digit t
         then Some (if nat_of_digits t \<le> 68 then nat_of_digits t + 2000
                    else nat_of_digits t + 1900)
         else None))"

text \<open>
  \<^verbatim>\<open>datetime.strptime(s, "%d/%m/%Y").date()\<close> when the flag is set and
  \<^verbatim>\<open>datetime.strptime(s, "%d/%m/%y").date()\<close> otherwise; \<open>None\<close> stands for the
  \<^verbatim>\<open>ValueError\<close>.
\<close>

definition strptime :: "bool \<Rightarrow> string \<Rightarrow> (nat \<times> nat \<times> nat) option" where
  "strptime four s =
     (case dropWhile (\<lambda>c. c \<noteq> CHR ''/'') s of
        [] \<Rightarrow> None
      | _ # r1 \<Rightarrow>
          (case dropWhile (\<lambda>c. c \<noteq> CHR ''/'') r1 of
             [] \<Rightarrow> None
           | _ # r2 \<Rightarrow>
               (case (day_field (takeWhile (\<lambda>c. c \<noteq> CHR ''/'') s),
                      month_field (takeWhile (\<lambda>c. c \<noteq> CHR ''/'') r1),
                      year_field four r2) of
                  (Some d, Some m, Some y) \<Rightarrow>
                    if valid_date y m d then Some (y, m, d) else None
                | _ \<Rightarrow> None)))"

text \<open>
  \<^verbatim>\<open>date.fromisoformat(s)\<close>, as specified for Python 3.7 to 3.10: the text has to be
  \<^verbatim>\<open>YYYY-MM-DD\<close> with ASCII digits and has to name a calendar date. (From Python 3.11
  on the function accepts further ISO 8601 spellings.)
\<close>

definition fromisoformat :: "string \<Rightarrow> (nat \<times> nat \<times> nat) option" where
  "fromisoformat s =
     (if length s = 10 \<and> s ! 4 = CHR ''-'' \<and> s ! 7 = CHR ''-''
         \<and> list_all is_digit (take 4 s) \<and> list_all is_digit (take 2 (drop 5 s))
         \<and> list_all is_digit (drop 8 s)
      then
        let y = nat_of_digits (take 4 s); m = nat_of_digits (take 2 (drop 5 s));
            d = nat_of_digits (drop 8 s)
        in if valid_date y m d then Some (y, m, d) else None
      else None)"

text \<open>
  \<^verbatim>\<open>
  def _parse_weekending(s: str) -> str:
      s = (s or "").strip()
      if not s:
          return ""
      for fmt in ("%d/%m/%Y", "%d/%m/%y"):
          try:
              d = dt.datetime.strptime(s, fmt).date()
              return d.isoformat()
          except ValueError:
              continue
      # If already ISO-ish, pass through
      try:
          return dt.date.fromisoformat(s).isoformat()
      except ValueError:
          return s
  \<close>
\<close>

definition parse_weekending :: "string \<Rightarrow> string" where
  "parse_weekending s0 =
     (let s = strip s0
      in if s = [] then []
         else (case strptime True s of
                 Some d \<Rightarrow> isoformat d
               | None \<Rightarrow>
                   (case strptime False s of
                      Some d \<Rightarrow> isoformat d
                    | None \<Rightarrow>
                        (case fromisoformat s of
                           Some d \<Rightarrow> isoformat d
                         | None \<Rightarrow> s))))"

section \<open>The conversion engine\<close>







section \<open>Python floats\<close>

text \<open>
  A Python \<^verbatim>\<open>float\<close> is an IEEE 754 binary64 value: a rational number, an infinity
  (the flag is set for the negative one) or a NaN. The sign of a zero is not kept: no
  comparison of the analysis depends on it.
\<close>

datatype pyfloat = FVal rat | FInf bool | FNaN

text \<open>The comparisons \<^verbatim>\<open>x > c\<close>, \<open>x <= c\<close> and \<^verbatim>\<open>x == c\<close> with a finite constant.\<close>

definition fgt :: "pyfloat \<Rightarrow> rat \<Rightarrow> bool" where
  "fgt x c = (case x of FVal q \<Rightarrow> c < q | FInf neg \<Rightarrow> \<not> neg | FNaN \<Rightarrow> False)"

definition fle :: "pyfloat \<Rightarrow> rat \<Rightarrow> bool" where
  "fle x c = (case x of FVal q \<Rightarrow> q \<le> c | FInf neg \<Rightarrow> neg | FNaN \<Rightarrow> False)"

definition feq :: "pyfloat \<Rightarrow> rat \<Rightarrow> bool" where
  "feq x c = (case x of FVal q \<Rightarrow> q = c | FInf neg \<Rightarrow> False | FNaN \<Rightarrow> False)"

text \<open>
  Rounding the fraction \<open>N / D\<close> to the nearest binary64 value, ties to the even
  significand; a result of magnitude \<open>2 ^ 1024\<close> or more is an infinity.
\<close>

fun bitlen :: "nat \<Rightarrow> nat" where
  "bitlen n = (if n = 0 then 0 else Suc (bitlen (n div 2)))"

declare bitlen.simps [simp del]

definition floor_log2 :: "nat \<Rightarrow> nat \<Rightarrow> int" where
  "floor_log2 N D =
     (let e0 = int (bitlen N) - int (bitlen D)
      in if (if 0 \<le> e0 then D * 2 ^ nat e0 \<le> N else D \<le> N * 2 ^ nat (- e0))
         then e0 else e0 - 1)"

definition binary64 :: "bool \<Rightarrow> nat \<Rightarrow> nat \<Rightarrow> pyfloat" where
  "binary64 neg N D =
     (if N = 0 then FVal 0
      else
        let e = max (floor_log2 N D) (- 1022);
            s = e - 52;
            m = (if 0 \<le> s then round_half_even N (D * 2 ^ nat s)
                 else round_half_even (N * 2 ^ nat (- s)) D)
        in if 0 \<le> s \<and> 2 ^ 1024 \<le> m * 2 ^ nat s then FInf neg
           else
             let q = (if 0 \<le> s then of_nat (m * 2 ^ nat s)
                      else of_nat m / of_nat (2 ^ nat (- s)))
             in FVal (if neg then - q else q))"

text \<open>
  \<^verbatim>\<open>float(s)\<close> on a string; \<open>None\<close> stands for the \<^verbatim>\<open>ValueError\<close>. The text is
  trimmed (the whitespace of this conversion is 9 to 13, 32, 133 and 160), an underscore
  is accepted between two digits only, and what remains is an optional sign followed by
  \<^verbatim>\<open>inf\<close>, \<^verbatim>\<open>infinity\<close> or \<^verbatim>\<open>nan\<close> in any letter case, or by a decimal literal with an
  optional exponent.
\<close>

definition is_fspace :: "char \<Rightarrow> bool" where
  "is_fspace c =
     (let n = (of_char c :: nat) in (9 \<le> n \<and> n \<le> 13) \<or> n = 32 \<or> n = 133 \<or> n = 160)"

fun drop_underscores :: "char \<Rightarrow> string \<Rightarrow> string option" where
  "drop_underscores prev [] = (if prev = CHR ''_'' then None else Some [])"
| "drop_underscores prev (c # cs) =
     (if c = CHR ''_'' then (if is_digit prev then drop_underscores c cs else None)
      else if prev = CHR ''_'' \<and> \<not> is_digit c then None
      else map_option ((#) c) (drop_underscores c cs))"

definition float_literal :: "bool \<Rightarrow> string \<Rightarrow> pyfloat option" where
  "float_literal neg s =
     (case literal_of s of
        None \<Rightarrow> None
      | Some (ip, fp, dot, e) \<Rightarrow>
          if ip = [] \<and> fp = [] then None
          else
            let n = nat_of_digits (ip @ fp); k = e - int (length fp)
            in Some (if 0 \<le> k then binary64 neg (n * 10 ^ nat k) 1
                     else binary64 neg n (10 ^ nat (- k))))"

definition py_float :: "string \<Rightarrow> pyfloat option" where
  "py_float v =
     (let t = rev (dropWhile is_fspace (rev (dropWhile is_fspace v)))
      in case drop_underscores (CHR 0x00) t of
           None \<Rightarrow> None
         | Some u \<Rightarrow>
             let (neg, body) = take_sign u
             in if lower body = ''inf'' \<or> lower body = ''infinity'' then Some (FInf neg)
                else if lower body = ''nan'' then Some FNaN
                else float_literal neg body)"

section \<open>The discrepancy analyzer\<close>

text \<open>
  \<^verbatim>\<open>
  def parse_date(date_str):
      if not date_str:
          return None
      date_str = date_str.strip()
      if '-' in date_str and len(date_str) == 10 and date_str[4] == '-':
          return date_str
      parts = date_str.split('/')
      if len(parts) == 3:
          day, month, year = parts
          if len(year) == 2:
              year = '20' + year
          return f"{year}-{month.zfill(2)}-{day.zfill(2)}"
      return date_str
  \<close>
  The result \<open>None\<close> is Python's \<^verbatim>\<open>None\<close>.
\<close>

definition parse_date :: "string \<Rightarrow> string option" where
  "parse_date date_str =
     (if date_str = [] then None
      else
        let s = strip date_str
        in if CHR ''-'' \<in> set s \<and> length s = 10 \<and> s ! 4 = CHR ''-'' then Some s
           else (case split_on CHR ''/'' s of
                   [day, month, year] \<Rightarrow>
                     Some ((if length year = 2 then ''20'' @ year else year)
                           @ ''-'' @ zfill 2 month @ ''-'' @ zfill 2 day)
                 | _ \<Rightarrow> Some s))"

text \<open>
  \<^verbatim>\<open>
  def parse_num(val):
      if not val:
          return 0.0
      val = val.strip().replace(',', '')
      try:
          return float(val)
      except:
          return 0.0
  \<close>
\<close>

definition parse_num :: "string \<Rightarrow> pyfloat" where
  "parse_num val =
     (if val = [] then FVal 0
      else (case py_float (filter (\<lambda>c. c \<noteq> CHR '','') (strip val)) of
              None \<Rightarrow> FVal 0
            | Some x \<Rightarrow> x))"

text \<open>
  An expected line of \<^verbatim>\<open>analyze_input\<close>: the dictionary with the keys
  \<^verbatim>\<open>employeeid\<close>, \<^verbatim>\<open>firstname\<close>, \<^verbatim>\<open>surname\<close>, \<^verbatim>\<open>description\<close>, \<^verbatim>\<open>amount\<close>,
  \<^verbatim>\<open>rate\<close>, \<^verbatim>\<open>weekending\<close>, \<^verbatim>\<open>unit\<close>, \<^verbatim>\<open>input_row\<close> and \<^verbatim>\<open>type\<close>. The amount of
  an expenses line is the integer 1, every other number is a float.
\<close>

datatype pynum = PyInt int | PyFloat pyfloat

record expected_line =
  e_employeeid :: string
  e_firstname :: string
  e_surname :: string
  e_description :: string
  e_amount :: pynum
  e_rate :: pyfloat
  e_weekending :: "string option"
  e_unit :: string
  e_input_row :: nat
  e_type :: string





text \<open>
  Appending to the list stored under a key of a dictionary of lists
  (\<^verbatim>\<open>d[key].append(v)\<close> on a \<^verbatim>\<open>defaultdict(list)\<close>, or the explicit test for the key
  in \<^verbatim>\<open>main\<close>); the dictionary keeps its keys in the order of their first insertion.
\<close>

fun group_append :: "('k \<times> 'v list) list \<Rightarrow> 'k \<Rightarrow> 'v \<Rightarrow> ('k \<times> 'v list) list" where
  "group_append [] k v = [(k, [v])]"
| "group_append ((k', vs) # g) k v =
     (if k' = k then (k', vs @ [v]) # g else (k', vs) # group_append g k v)"

definition group_by :: "('v \<Rightarrow> 'k) \<Rightarrow> 'v list \<Rightarrow> ('k \<times> 'v list) list" where
  "group_by f rows = foldl (\<lambda>g r. group_append g (f r) r) [] rows"

text \<open>
  The category of an actual line, from the start of its description
  (the \<^verbatim>\<open>if\<close>/\<^verbatim>\<open>elif\<close> chain of \<^verbatim>\<open>compare_outputs\<close>).
\<close>

definition line_type :: "string \<Rightarrow> string" where
  "line_type d =
     (if startswith d ''Std Hrs'' then ''Std Hrs''
      else if startswith d ''OT1 Hrs'' then ''OT1 Hrs''
      else if startswith d ''OT2 Hrs'' then ''OT2 Hrs''
      else if startswith d ''OT3 Hrs'' then ''OT3 Hrs''
      else if startswith d ''Expenses'' then ''Expenses''
      else ''Unknown'')"

type_synonym line_key = "string \<times> string \<times> string"

definition actual_key :: "row \<Rightarrow> line_key" where
  "actual_key r =
     (strip (get_or r ''employeeid'' ''''), strip (get_or r ''weekending'' ''''),
      line_type (get_or r ''description'' ''''))"

text \<open>A discrepancy reported by \<^verbatim>\<open>compare_outputs\<close>.\<close>

record discrepancy =
  d_type :: string
  d_employeeid :: string
  d_description :: string
  d_amount :: string
  d_rate :: string
  d_weekending :: string
  d_issue :: string

definition extra_line :: "string \<Rightarrow> string \<Rightarrow> row \<Rightarrow> discrepancy" where
  "extra_line label emp_id al =
     \<lparr>d_type = ''EXTRA_LINE'', d_employeeid = emp_id,
      d_description = get_or al ''description'' '''',
      d_amount = get_or al ''amount'' '''',
      d_rate = get_or al ''rate'' '''',
      d_weekending = get_or al ''weekending'' '''',
      d_issue = ''Line exists in '' @ label @ '' but shouldn'' @ [CHR 0x27]
                @ ''t based on input''\<rparr>"

definition matching_expected :: "expected_line list \<Rightarrow> line_key \<Rightarrow> expected_line list" where
  "matching_expected expected key =
     (case key of (emp_id, we, lt) \<Rightarrow>
        filter (\<lambda>e. e_employeeid e = emp_id \<and> e_weekending e = Some we \<and> e_type e = lt)
          expected)"

text \<open>
  \<^verbatim>\<open>compare_outputs(expected, actual_file, label)\<close>, on the rows read from the actual
  file: group the actual rows by key, then walk the groups in order and append one
  \<^verbatim>\<open>EXTRA_LINE\<close> entry per row of a group that has no expected line.
\<close>

definition compare_outputs :: "expected_line list \<Rightarrow> row list \<Rightarrow> string \<Rightarrow> discrepancy list" where
  "compare_outputs expected actual_rows label =
     foldl (\<lambda>discrepancies (key, actual_lines).
              if matching_expected expected key = [] \<and> actual_lines \<noteq> []
              then discrepancies @ map (extra_line label (fst key)) actual_lines
              else discrepancies)
       [] (group_by actual_key actual_rows)"

text \<open>
  The three findings of the row check in \<^verbatim>\<open>main\<close>. Each message interpolates floats;
  the datatype keeps the message template and the interpolated values.
\<close>

datatype issue =
    OT1_line_zero_hours pyfloat
  | Expenses_line_zero_expenses pyfloat
  | Amount_rate_swapped pyfloat pyfloat

record finding =
  f_employeeid :: string
  f_name :: string
  f_issue :: issue
  f_output_line :: string
  f_severity :: string

text \<open>
  The dictionary \<^verbatim>\<open>input_by_refno\<close> of \<^verbatim>\<open>main\<close>: the input rows under the key
  (reference number, normalized week-ending date).
\<close>

definition input_key :: "row \<Rightarrow> string \<times> string option" where
  "input_key r =
     (strip (get_or r ''Candidate RefNo'' ''''), parse_date (strip (get_or r ''Weekending'' '''')))"

definition input_by_refno :: "row list \<Rightarrow> ((string \<times> string option) \<times> row list) list" where
  "input_by_refno input_rows = group_by input_key input_rows"

text \<open>The checks of one output row against one input row with the same key.\<close>

definition check_pair :: "row \<Rightarrow> row \<Rightarrow> finding list" where
  "check_pair r inp =
     (let emp_id = strip (get_or r ''employeeid'' '''');
          d = get_or r ''description'' '''';
          amount = strip (get_or r ''amount'' '''');
          rate = strip (get_or r ''rate'' '''');
          ot1_hrs = parse_num (get_or inp ''OT1 Hrs'' ''0'');
          ot1_rate = parse_num (get_or inp ''OT1 Rate'' ''0'');
          expenses = parse_num (get_or inp ''Expenses'' ''0'');
          found = (\<lambda>what.
            \<lparr>f_employeeid = emp_id,
             f_name = get_or r ''firstname'' '''' @ '' '' @ get_or r ''surname'' '''',
             f_issue = what,
             f_output_line = d @ '', amount='' @ amount @ '', rate='' @ rate,
             f_severity = ''CRITICAL''\<rparr>)
      in (if str_contains d ''OT1 Hrs'' \<and> feq ot1_hrs 0
          then [found (OT1_line_zero_hours ot1_rate)] else [])
         @ (if str_contains d ''Expenses'' \<and> feq expenses 0
            then [found (Expenses_line_zero_expenses ot1_rate)] else [])
         @ (case py_float amount of
              None \<Rightarrow> []
            | Some amt \<Rightarrow>
                (case py_float rate of
                   None \<Rightarrow> []
                 | Some rt \<Rightarrow>
                     if fgt amt 100 \<and> fle rt 10 \<and> str_contains d ''Hrs''
                     then [found (Amount_rate_swapped amt rt)] else [])))"

text \<open>
  The loop of \<^verbatim>\<open>main\<close> over the rows of the output under analysis: look the row's key
  up (\<^verbatim>\<open>input_by_refno.get(key, [])\<close>), and run the checks against every input row
  found, appending to \<^verbatim>\<open>issues_found\<close>.
\<close>

definition row_issues :: "((string \<times> string option) \<times> row list) list \<Rightarrow> row \<Rightarrow> finding list" where
  "row_issues by_refno r =
     (let emp_id = strip (get_or r ''employeeid'' '''');
          we = strip (get_or r ''weekending'' '''');
          input_data = (case map_of by_refno (emp_id, Some we) of None \<Rightarrow> [] | Some l \<Rightarrow> l)
      in foldl (\<lambda>issues_found inp. issues_found @ check_pair r inp) [] input_data)"

definition issues_found :: "row list \<Rightarrow> row list \<Rightarrow> finding list" where
  "issues_found input_rows wrong_output =
     foldl (\<lambda>found r. found @ row_issues (input_by_refno input_rows) r) [] wrong_output"

text \<open>
  The anomaly kinds of the specification for the three findings: both zero-driver
  findings are \<^verbatim>\<open>ZERO_DRIVER_LINE\<close>, the third is \<^verbatim>\<open>SWAPPED_AMOUNT_RATE\<close>.
\<close>

fun anomaly_kind :: "issue \<Rightarrow> string" where
  "anomaly_kind (OT1_line_zero_hours _) = ''ZERO_DRIVER_LINE''"
| "anomaly_kind (Expenses_line_zero_expenses _) = ''ZERO_DRIVER_LINE''"
| "anomaly_kind (Amount_rate_swapped _ _) = ''SWAPPED_AMOUNT_RATE''"

section \<open>Comparing the analyzer's expectation with the converter's output\<close>





section \<open>Whitespace normalization\<close>

lemma last_dropWhile_keep:
  "xs \<noteq> [] \<Longrightarrow> \<not> P (last xs) \<Longrightarrow> dropWhile P xs \<noteq> [] \<and> last (dropWhile P xs) = last xs"
  by (induction xs) auto

lemma strip_ends:
  "strip s = [] \<or> (\<not> is_space (hd (strip s)) \<and> \<not> is_space (last (strip s)))"
proof (cases "dropWhile is_space s = []")
  case True
  then have "strip s = []" by (simp only: strip_def rev.simps dropWhile.simps)
  then show ?thesis by simp
next
  case False
  define u where "u = dropWhile is_space s"
  have u: "u \<noteq> []" "\<not> is_space (hd u)"
    using False hd_dropWhile[of is_space s] by (auto simp: u_def)
  define v where "v = dropWhile is_space (rev u)"
  have "rev u \<noteq> []" "\<not> is_space (last (rev u))"
    using u by (auto simp: last_rev)
  from last_dropWhile_keep[of "rev u" is_space, OF this] have v: "v \<noteq> []" "last v = hd u"
    using u by (auto simp: v_def last_rev)
  have "\<not> is_space (hd v)"
    using v(1) hd_dropWhile[of is_space "rev u"] by (auto simp: v_def)
  then show ?thesis
    using v u by (simp add: strip_def u_def[symmetric] v_def[symmetric] hd_rev last_rev)
qed

lemma strip_fixed:
  assumes "t = [] \<or> (\<not> is_space (hd t) \<and> \<not> is_space (last t))"
  shows "strip t = t"
proof (cases t)
  case Nil
  then show ?thesis by (simp add: strip_def)
next
  case (Cons a as)
  with assms have a: "\<not> is_space a" and l: "\<not> is_space (last t)" by auto
  have "dropWhile is_space t = t" using Cons a by simp
  moreover have "dropWhile is_space (rev t) = rev t"
  proof -
    have "rev t \<noteq> []" using Cons by simp
    moreover have "hd (rev t) = last t" using Cons by (simp only: hd_rev)
    ultimately have "rev t \<noteq> []" "\<not> is_space (hd (rev t))" using l by simp_all
    then show ?thesis by (cases "rev t") auto
  qed
  ultimately show ?thesis by (simp add: strip_def)
qed

lemma sub_spaces_head:
  "t \<noteq> [] \<Longrightarrow> \<not> is_space (hd t) \<Longrightarrow> sub_spaces t \<noteq> [] \<and> hd (sub_spaces t) = hd t"
  by (cases t) auto

lemma sub_spaces_last:
  "t \<noteq> [] \<Longrightarrow> \<not> is_space (last t) \<Longrightarrow> sub_spaces t \<noteq> [] \<and> last (sub_spaces t) = last t"
proof (induction t rule: sub_spaces.induct)
  case 1
  then show ?case by simp
next
  case (2 c cs)
  show ?case
  proof (cases "is_space c")
    case True
    with "2.prems" have cs: "cs \<noteq> []" "\<not> is_space (last cs)" by (auto split: if_splits)
    from last_dropWhile_keep[of cs is_space, OF this]
    have d: "dropWhile is_space cs \<noteq> []" "last (dropWhile is_space cs) = last cs" by auto
    with "2.IH"(1)[OF True] cs show ?thesis using True by simp
  next
    case False
    show ?thesis
    proof (cases "cs = []")
      case True
      then show ?thesis using False by simp
    next
      case nonempty: False
      with "2.prems" have "\<not> is_space (last cs)" by simp
      with "2.IH"(2)[OF False nonempty] show ?thesis using False nonempty by simp
    qed
  qed
qed

lemma dropWhile_sub_spaces:
  "u = [] \<or> \<not> is_space (hd u) \<Longrightarrow> dropWhile is_space (sub_spaces u) = sub_spaces u"
  by (cases u) auto

lemma hd_dropWhile_space: "dropWhile is_space cs = [] \<or> \<not> is_space (hd (dropWhile is_space cs))"
  using hd_dropWhile[of is_space cs] by auto

lemma sub_spaces_idem: "sub_spaces (sub_spaces t) = sub_spaces t"
proof (induction t rule: sub_spaces.induct)
  case 1
  then show ?case by simp
next
  case (2 c cs)
  show ?case
  proof (cases "is_space c")
    case True
    have sp: "is_space CHR '' ''" by (simp add: is_space_def)
    show ?thesis
      using True "2.IH"(1)[OF True] sp dropWhile_sub_spaces[OF hd_dropWhile_space[of cs]]
      by simp
  next
    case False
    then show ?thesis using "2.IH"(2) by simp
  qed
qed

lemma sub_spaces_not_adjacent: "\<not> adjacent_spaces (sub_spaces t)"
proof (induction t rule: sub_spaces.induct)
  case 1
  then show ?case by simp
next
  case (2 c cs)
  show ?case
  proof (cases "is_space c")
    case True
    define u where "u = dropWhile is_space cs"
    have "u = [] \<or> \<not> is_space (hd u)" unfolding u_def by (rule hd_dropWhile_space)
    then have "sub_spaces u = [] \<or> \<not> is_space (hd (sub_spaces u))"
      using sub_spaces_head[of u] by (cases "u = []") auto
    moreover have "\<not> adjacent_spaces (sub_spaces u)"
      using "2.IH"(1)[OF True] by (simp add: u_def)
    ultimately show ?thesis using True
      by (cases "sub_spaces u") (auto simp: u_def[symmetric])
  next
    case False
    with "2.IH"(2) show ?thesis by (cases "sub_spaces cs") auto
  qed
qed

lemma norm_spaces_ends:
  "norm_spaces s = [] \<or> (\<not> is_space (hd (norm_spaces s)) \<and> \<not> is_space (last (norm_spaces s)))"
proof (cases "strip s = []")
  case True
  then show ?thesis by (simp add: norm_spaces_def)
next
  case False
  with strip_ends[of s] have "\<not> is_space (hd (strip s))" "\<not> is_space (last (strip s))" by auto
  with False sub_spaces_head[of "strip s"] sub_spaces_last[of "strip s"]
  show ?thesis by (simp add: norm_spaces_def)
qed

text \<open>
  Claim C9: normalizing twice is the same as normalizing once, and a normalized text
  neither starts nor ends with whitespace nor holds two whitespace characters in a row.
\<close>

theorem norm_spaces_idempotent_clean:
  "norm_spaces (norm_spaces s) = norm_spaces s
   \<and> (norm_spaces s \<noteq> [] \<longrightarrow>
        \<not> is_space (hd (norm_spaces s)) \<and> \<not> is_space (last (norm_spaces s)))
   \<and> \<not> adjacent_spaces (norm_spaces s)"
proof -
  have "strip (norm_spaces s) = norm_spaces s"
    by (rule strip_fixed) (rule norm_spaces_ends)
  then have "norm_spaces (norm_spaces s) = sub_spaces (sub_spaces (strip s))"
    by (simp add: norm_spaces_def)
  then have "norm_spaces (norm_spaces s) = norm_spaces s"
    by (simp add: sub_spaces_idem norm_spaces_def)
  moreover have "\<not> adjacent_spaces (norm_spaces s)"
    by (simp add: norm_spaces_def sub_spaces_not_adjacent)
  ultimately show ?thesis using norm_spaces_ends[of s] by auto
qed

theorem norm_spaces_idempotent_clean_witness:
  "norm_spaces [CHR '' '', CHR ''a'', CHR 0x09, CHR '' '', CHR ''b'', CHR '' ''] = ''a b''
   \<and> norm_spaces ''a b'' = ''a b'' \<and> ''a b'' \<noteq> []
   \<and> \<not> is_space (hd ''a b'') \<and> \<not> is_space (last ''a b'') \<and> \<not> adjacent_spaces ''a b''"
proof -
  have e: "norm_spaces [CHR '' '', CHR ''a'', CHR 0x09, CHR '' '', CHR ''b'', CHR '' ''] = ''a b''"
    by (simp add: norm_spaces_def strip_def is_space_def)
  show ?thesis
    using norm_spaces_idempotent_clean[of "[CHR '' '', CHR ''a'', CHR 0x09, CHR '' '', CHR ''b'', CHR '' '']"]
    unfolding e by simp
qed

section \<open>The date normalizer of the analyzer\<close>

text \<open>
  Claim C10, as the code has it: empty input gives \<open>None\<close>; an input whose trimmed text
  does not have the shape of an ISO date (ten characters with a hyphen at index 4) and
  splits at \<open>/\<close> into exactly three parts is reassembled as year, month and day with
  hyphens, day and month padded with zeros to two characters and a two-character year
  prefixed with 20. Nothing checks that the parts are numbers.
\<close>

theorem parse_date_three_parts:
  assumes "date_str \<noteq> []"
    and "\<not> (CHR ''-'' \<in> set (strip date_str) \<and> length (strip date_str) = 10
             \<and> strip date_str ! 4 = CHR ''-'')"
    and "split_on CHR ''/'' (strip date_str) = [day, month, year]"
  shows "parse_date [] = None
    \<and> parse_date date_str =
        Some ((if length year = 2 then ''20'' @ year else year)
              @ ''-'' @ zfill 2 month @ ''-'' @ zfill 2 day)
    \<and> 2 \<le> length (zfill 2 month) \<and> 2 \<le> length (zfill 2 day)"
proof -
  have "parse_date [] = None" by (simp add: parse_date_def)
  moreover have "parse_date date_str =
        Some ((if length year = 2 then ''20'' @ year else year)
              @ ''-'' @ zfill 2 month @ ''-'' @ zfill 2 day)"
    using assms unfolding parse_date_def Let_def by auto
  moreover have "2 \<le> length (zfill 2 x)" for x
    by (cases x) (auto simp: zfill_def)
  ultimately show ?thesis by blast
qed

lemma strip_plain_date: "strip ''99/99/2024'' = ''99/99/2024''"
  by (simp add: strip_def is_space_def)

theorem parse_date_three_parts_witness:
  "parse_date [] = None \<and> parse_date ''99/99/2024'' = Some ''2024-99-99''"
proof -
  have a: "''99/99/2024'' \<noteq> []" by simp
  have b: "\<not> (CHR ''-'' \<in> set (strip ''99/99/2024'') \<and> length (strip ''99/99/2024'') = 10
             \<and> strip ''99/99/2024'' ! 4 = CHR ''-'')"
    unfolding strip_plain_date by simp
  have c: "split_on CHR ''/'' (strip ''99/99/2024'') = [''99'', ''99'', ''2024'']"
    unfolding strip_plain_date by simp
  show ?thesis
    using parse_date_three_parts [OF a b c] by (simp add: zfill_def)
qed

theorem parse_date_three_parts_counterexample:
  "split_on CHR ''/'' ''12/3-/2024'' = [''12'', ''3-'', ''2024'']
   \<and> parse_date ''12/3-/2024'' = Some ''12/3-/2024''
   \<and> parse_date ''12/3-/2024'' \<noteq> Some (''2024'' @ ''-'' @ zfill 2 ''3-'' @ ''-'' @ zfill 2 ''12'')"
  by (simp add: parse_date_def strip_def is_space_def zfill_def)

section \<open>Grouping rows by key\<close>

lemma group_append_pairs:
  "mset (concat (map (\<lambda>(k, vs). map (Pair k) vs) (group_append g k v)))
   = mset (concat (map (\<lambda>(k, vs). map (Pair k) vs) g)) + {#(k, v)#}"
  by (induction g k v rule: group_append.induct) auto

lemma foldl_group_append_pairs:
  "mset (concat (map (\<lambda>(k, vs). map (Pair k) vs) (foldl (\<lambda>g r. group_append g (f r) r) g rows)))
   = mset (concat (map (\<lambda>(k, vs). map (Pair k) vs) g)) + mset (map (\<lambda>r. (f r, r)) rows)"
  by (induction rows arbitrary: g) (auto simp: group_append_pairs)

lemma group_by_pairs:
  "mset (concat (map (\<lambda>(k, vs). map (Pair k) vs) (group_by f rows)))
   = mset (map (\<lambda>r. (f r, r)) rows)"
  by (simp add: group_by_def foldl_group_append_pairs)

section \<open>Reconciliation of expected and actual lines\<close>

lemma foldl_extra_concat:
  "foldl (\<lambda>discrepancies (key, actual_lines).
            if matching_expected expected key = [] \<and> actual_lines \<noteq> []
            then discrepancies @ map (extra_line label (fst key)) actual_lines
            else discrepancies) acc g
   = acc @ concat (map (\<lambda>(key, actual_lines).
            if matching_expected expected key = []
            then map (extra_line label (fst key)) actual_lines else []) g)"
  by (induction g arbitrary: acc) (auto split: prod.splits)

lemma extras_of_groups:
  "mset (concat (map (\<lambda>(key, actual_lines).
            if matching_expected expected key = []
            then map (extra_line label (fst key)) actual_lines else []) g))
   = image_mset (\<lambda>(key, al). extra_line label (fst key) al)
       (filter_mset (\<lambda>(key, al). matching_expected expected key = [])
          (mset (concat (map (\<lambda>(k, vs). map (Pair k) vs) g))))"
proof (induction g)
  case Nil
  then show ?case by simp
next
  case (Cons p g)
  obtain key ls where p: "p = (key, ls)" by (cases p)
  have "mset (map (extra_line label (fst key)) ls)
        = image_mset (\<lambda>(key, al). extra_line label (fst key) al) (mset (map (Pair key) ls))"
    by (induction ls) auto
  moreover have "filter_mset (\<lambda>(key, al). matching_expected expected key = []) (mset (map (Pair key) ls))
        = (if matching_expected expected key = [] then mset (map (Pair key) ls) else {#})"
    by (induction ls) auto
  ultimately show ?case using Cons p by simp
qed

lemma compare_outputs_mset:
  "mset (compare_outputs expected actual_rows label)
   = mset (map (\<lambda>r. extra_line label (fst (actual_key r)) r)
        (filter (\<lambda>r. matching_expected expected (actual_key r) = []) actual_rows))"
proof -
  have "mset (compare_outputs expected actual_rows label)
      = image_mset (\<lambda>(key, al). extra_line label (fst key) al)
       (filter_mset (\<lambda>(key, al). matching_expected expected key = [])
          (mset (map (\<lambda>r. (actual_key r, r)) actual_rows)))"
    unfolding compare_outputs_def foldl_extra_concat
    by (simp only: append_Nil extras_of_groups group_by_pairs)
  also have "\<dots> = mset (map (\<lambda>r. extra_line label (fst (actual_key r)) r)
        (filter (\<lambda>r. matching_expected expected (actual_key r) = []) actual_rows))"
    by (induction actual_rows) auto
  finally show ?thesis .
qed

text \<open>
  Claim C2, as the code has it: \<^verbatim>\<open>compare_outputs\<close> reports extra lines only. Its
  entries are, up to their order, one \<^verbatim>\<open>EXTRA_LINE\<close> for each actual row whose key
  has no expected line; no entry of another type is ever produced, and without actual
  rows nothing is reported whatever is expected.
\<close>

theorem compare_outputs_extra_only:
  "mset (compare_outputs expected actual_rows label)
     = mset (map (\<lambda>r. extra_line label (fst (actual_key r)) r)
          (filter (\<lambda>r. matching_expected expected (actual_key r) = []) actual_rows))
   \<and> (\<forall>d \<in> set (compare_outputs expected actual_rows label). d_type d = ''EXTRA_LINE'')
   \<and> compare_outputs expected [] label = []"
proof -
  have m: "mset (compare_outputs expected actual_rows label)
     = mset (map (\<lambda>r. extra_line label (fst (actual_key r)) r)
          (filter (\<lambda>r. matching_expected expected (actual_key r) = []) actual_rows))"
    by (rule compare_outputs_mset)
  have "set (compare_outputs expected actual_rows label)
     = set (map (\<lambda>r. extra_line label (fst (actual_key r)) r)
          (filter (\<lambda>r. matching_expected expected (actual_key r) = []) actual_rows))"
    using m by (rule mset_eq_setD)
  then have "\<forall>d \<in> set (compare_outputs expected actual_rows label). d_type d = ''EXTRA_LINE''"
    by (auto simp: extra_line_def)
  moreover have "compare_outputs expected [] label = []"
    by (simp add: compare_outputs_def group_by_def)
  ultimately show ?thesis using m by blast
qed

theorem compare_outputs_extra_only_witness:
  "compare_outputs []
      [[''employeeid'' \<mapsto> ''E1'', ''description'' \<mapsto> ''OT1 Hrs - Acme - Dev'',
        ''amount'' \<mapsto> ''5'', ''rate'' \<mapsto> ''20'', ''weekending'' \<mapsto> ''2025-03-07'']]
      ''Wrong Output''
     \<noteq> []
   \<and> d_type (hd (compare_outputs []
      [[''employeeid'' \<mapsto> ''E1'', ''description'' \<mapsto> ''OT1 Hrs - Acme - Dev'',
        ''amount'' \<mapsto> ''5'', ''rate'' \<mapsto> ''20'', ''weekending'' \<mapsto> ''2025-03-07'']]
      ''Wrong Output'')) = ''EXTRA_LINE''"
proof -
  define a where "a = [[''employeeid'' \<mapsto> ''E1'', ''description'' \<mapsto> ''OT1 Hrs - Acme - Dev'',
        ''amount'' \<mapsto> ''5'', ''rate'' \<mapsto> ''20'', ''weekending'' \<mapsto> ''2025-03-07'']]"
  have ne: "compare_outputs [] a ''Wrong Output'' \<noteq> []"
    by (simp add: a_def compare_outputs_def group_by_def matching_expected_def actual_key_def
        split: prod.splits)
  then have "hd (compare_outputs [] a ''Wrong Output'') \<in> set (compare_outputs [] a ''Wrong Output'')"
    by simp
  then have "d_type (hd (compare_outputs [] a ''Wrong Output'')) = ''EXTRA_LINE''"
    using compare_outputs_extra_only [of "[]" a "''Wrong Output''"] by blast
  with ne show ?thesis unfolding a_def by simp
qed

theorem compare_outputs_missing_line_counterexample:
  "matching_expected
     [\<lparr>e_employeeid = ''E1'', e_firstname = ''Ann'', e_surname = ''Lee'',
       e_description = ''Std Hrs - Acme - Dev'', e_amount = PyFloat (FVal 40),
       e_rate = FVal 12, e_weekending = Some ''2025-03-07'', e_unit = ''hours'',
       e_input_row = 2, e_type = ''Std Hrs''\<rparr>]
     (''E1'', ''2025-03-07'', ''Std Hrs'') \<noteq> []
   \<and> compare_outputs
     [\<lparr>e_employeeid = ''E1'', e_firstname = ''Ann'', e_surname = ''Lee'',
       e_description = ''Std Hrs - Acme - Dev'', e_amount = PyFloat (FVal 40),
       e_rate = FVal 12, e_weekending = Some ''2025-03-07'', e_unit = ''hours'',
       e_input_row = 2, e_type = ''Std Hrs''\<rparr>]
     [] ''Wrong Output'' = []"
  by (simp add: compare_outputs_def group_by_def matching_expected_def)

section \<open>Looking a key up among grouped rows\<close>

lemma map_of_group_append:
  "map_of (group_append g k v) k'
   = (if k' = k then Some ((case map_of g k of None \<Rightarrow> [] | Some vs \<Rightarrow> vs) @ [v])
      else map_of g k')"
  by (induction g k v rule: group_append.induct) auto

lemma map_of_foldl_group_append:
  "map_of (foldl (\<lambda>g r. group_append g (f r) r) g rows) k
   = (case map_of g k of
        None \<Rightarrow> (if filter (\<lambda>r. f r = k) rows = [] then None
                  else Some (filter (\<lambda>r. f r = k) rows))
      | Some vs \<Rightarrow> Some (vs @ filter (\<lambda>r. f r = k) rows))"
proof (induction rows arbitrary: g)
  case Nil
  then show ?case by (simp split: option.splits)
next
  case (Cons r rows)
  show ?case
    unfolding foldl_Cons Cons.IH map_of_group_append
    by (auto split: option.splits)
qed

lemma map_of_group_by:
  "(case map_of (group_by f rows) k of None \<Rightarrow> [] | Some l \<Rightarrow> l) = filter (\<lambda>r. f r = k) rows"
  by (simp add: group_by_def map_of_foldl_group_append)

section \<open>The row checks of the analysis\<close>

lemma foldl_append_concat: "foldl (\<lambda>acc x. acc @ h x) a xs = a @ concat (map h xs)"
  by (induction xs arbitrary: a) auto

lemma row_issues_concat:
  "row_issues (input_by_refno input_rows) r
   = concat (map (check_pair r)
       (filter (\<lambda>inp. input_key inp
                  = (strip (get_or r ''employeeid'' ''''), Some (strip (get_or r ''weekending'' ''''))))
          input_rows))"
  by (simp add: row_issues_def input_by_refno_def map_of_group_by foldl_append_concat Let_def)

lemma issues_found_concat:
  "issues_found input_rows wrong_output
   = concat (map (row_issues (input_by_refno input_rows)) wrong_output)"
  by (simp add: issues_found_def foldl_append_concat)

lemma str_contains_Nil [simp]: "str_contains s []"
  by (cases s) (simp_all add: startswith_def)

lemma startswith_append: "startswith xs q \<Longrightarrow> startswith (xs @ rest) q"
proof -
  assume a: "startswith xs q"
  have "length (take (length q) xs) \<le> length xs" by simp
  with a have "length q \<le> length xs" unfolding startswith_def by simp
  then have "take (length q) (xs @ rest) = take (length q) xs" by simp
  with a show ?thesis unfolding startswith_def by simp
qed

lemma str_contains_append: "str_contains p q \<Longrightarrow> str_contains (p @ rest) q"
proof (induction p)
  case Nil
  then show ?case by simp
next
  case (Cons c cs)
  show ?case
  proof (cases "startswith (c # cs) q")
    case True
    then have "startswith ((c # cs) @ rest) q" by (rule startswith_append)
    then show ?thesis by simp
  next
    case False
    with Cons show ?thesis by simp
  qed
qed

lemma startswith_contains:
  assumes "startswith d p" and "str_contains p q"
  shows "str_contains d q"
proof -
  from assms(1) have "d = p @ drop (length p) d"
    unfolding startswith_def by (metis append_take_drop_id)
  with str_contains_append[OF assms(2)] show ?thesis by metis
qed

lemma hours_line_contains_Hrs:
  assumes "line_type d \<in> {''Std Hrs'', ''OT1 Hrs'', ''OT2 Hrs'', ''OT3 Hrs''}"
  shows "str_contains d ''Hrs''"
proof -
  have c: "str_contains ''Std Hrs'' ''Hrs''" "str_contains ''OT1 Hrs'' ''Hrs''"
    "str_contains ''OT2 Hrs'' ''Hrs''" "str_contains ''OT3 Hrs'' ''Hrs''"
    by (simp_all add: startswith_def)
  from assms have "startswith d ''Std Hrs'' \<or> startswith d ''OT1 Hrs''
      \<or> startswith d ''OT2 Hrs'' \<or> startswith d ''OT3 Hrs''"
    unfolding line_type_def by (simp split: if_splits)
  with c show ?thesis using startswith_contains by blast
qed

lemma swapped_of_pair:
  assumes "str_contains (get_or r ''description'' '''') ''Hrs''"
  shows "length (filter (\<lambda>f. anomaly_kind (f_issue f) = ''SWAPPED_AMOUNT_RATE'') (check_pair r inp))
   = (if (\<exists>amt rt. py_float (strip (get_or r ''amount'' '''')) = Some amt
            \<and> py_float (strip (get_or r ''rate'' '''')) = Some rt
            \<and> fgt amt 100 \<and> fle rt 10) then 1 else 0)"
  using assms unfolding check_pair_def Let_def
  by (auto split: option.splits)

lemma length_filter_concat_flag:
  assumes "\<And>x. length (filter P (h x)) = (if b then 1 else 0)"
  shows "length (filter P (concat (map h xs))) = (if b then length xs else 0)"
  using assms by (induction xs) auto

text \<open>
  Claim C8: an actual line of an hours category is flagged as swapped once for every
  input row with its key (employee, normalized week-ending date) exactly when its amount
  reads as a float above 100 and its rate as a float of at most 10; otherwise it is not
  flagged. The row check of the whole output is the check of each row in turn.
\<close>

theorem swapped_flag_on_hours_lines:
  assumes "line_type (get_or r ''description'' '''')
             \<in> {''Std Hrs'', ''OT1 Hrs'', ''OT2 Hrs'', ''OT3 Hrs''}"
  shows "length (filter (\<lambda>f. anomaly_kind (f_issue f) = ''SWAPPED_AMOUNT_RATE'')
                   (row_issues (input_by_refno input_rows) r))
         = (if (\<exists>amt rt. py_float (strip (get_or r ''amount'' '''')) = Some amt
                  \<and> py_float (strip (get_or r ''rate'' '''')) = Some rt
                  \<and> fgt amt 100 \<and> fle rt 10)
            then length (filter (\<lambda>inp. input_key inp
                    = (strip (get_or r ''employeeid'' ''''), Some (strip (get_or r ''weekending'' ''''))))
                  input_rows)
            else 0)
     \<and> issues_found input_rows wrong_output
         = concat (map (row_issues (input_by_refno input_rows)) wrong_output)"
proof -
  have h: "str_contains (get_or r ''description'' '''') ''Hrs''"
    using assms by (rule hours_line_contains_Hrs)
  have "length (filter (\<lambda>f. anomaly_kind (f_issue f) = ''SWAPPED_AMOUNT_RATE'')
                   (row_issues (input_by_refno input_rows) r))
         = (if (\<exists>amt rt. py_float (strip (get_or r ''amount'' '''')) = Some amt
                  \<and> py_float (strip (get_or r ''rate'' '''')) = Some rt
                  \<and> fgt amt 100 \<and> fle rt 10)
            then length (filter (\<lambda>inp. input_key inp
                    = (strip (get_or r ''employeeid'' ''''), Some (strip (get_or r ''weekending'' ''''))))
                  input_rows)
            else 0)"
    unfolding row_issues_concat
    by (rule length_filter_concat_flag) (rule swapped_of_pair[OF h])
  then show ?thesis
    using issues_found_concat[of input_rows wrong_output] by (rule conjI)
qed

lemma strip_plain:
  "strip ''E1'' = ''E1''" "strip ''150'' = ''150''" "strip ''5'' = ''5''"
  "strip ''2025-03-07'' = ''2025-03-07''" "strip ''07/03/2025'' = ''07/03/2025''"
  "strip ''20'' = ''20''" "strip ''0'' = ''0''"
  by (simp_all add: strip_def is_space_def)

lemma py_float_samples:
  "py_float ''150'' = Some (FVal 150)" "py_float ''5'' = Some (FVal 5)"
  "py_float ''20'' = Some (FVal 20)" "py_float ''0'' = Some (FVal 0)"
  by (simp_all add: py_float_def is_fspace_def is_digit_def take_sign_def lower_def lower_char_def
      float_literal_def literal_of_def nat_of_digits_def digit_val_def binary64_def floor_log2_def
      bitlen.simps round_half_even_def Let_def)

lemma parse_date_sample: "parse_date ''07/03/2025'' = Some ''2025-03-07''"
  by (simp add: parse_date_def strip_plain zfill_def)

theorem swapped_flag_on_hours_lines_witness:
  "line_type ''Std Hrs - Acme - Dev'' = ''Std Hrs''
   \<and> length (filter (\<lambda>f. anomaly_kind (f_issue f) = ''SWAPPED_AMOUNT_RATE'')
       (row_issues
          (input_by_refno [[''Candidate RefNo'' \<mapsto> ''E1'', ''Weekending'' \<mapsto> ''07/03/2025'']])
          [''employeeid'' \<mapsto> ''E1'', ''description'' \<mapsto> ''Std Hrs - Acme - Dev'',
           ''amount'' \<mapsto> ''150'', ''rate'' \<mapsto> ''5'', ''weekending'' \<mapsto> ''2025-03-07''])) = 1"
proof -
  define r :: row where "r = [''employeeid'' \<mapsto> ''E1'', ''description'' \<mapsto> ''Std Hrs - Acme - Dev'',
           ''amount'' \<mapsto> ''150'', ''rate'' \<mapsto> ''5'', ''weekending'' \<mapsto> ''2025-03-07'']"
  define inp :: row where "inp = [''Candidate RefNo'' \<mapsto> ''E1'', ''Weekending'' \<mapsto> ''07/03/2025'']"
  have lt: "line_type ''Std Hrs - Acme - Dev'' = ''Std Hrs''"
    by (simp add: line_type_def startswith_def)
  have g: "get_or r ''description'' '''' = ''Std Hrs - Acme - Dev''"
    "get_or r ''amount'' '''' = ''150''" "get_or r ''rate'' '''' = ''5''"
    "get_or r ''employeeid'' '''' = ''E1''" "get_or r ''weekending'' '''' = ''2025-03-07''"
    by (simp_all add: r_def get_or_def)
  have hyp: "line_type (get_or r ''description'' '''')
             \<in> {''Std Hrs'', ''OT1 Hrs'', ''OT2 Hrs'', ''OT3 Hrs''}"
    unfolding g lt by simp
  have k: "input_key inp = (''E1'', Some ''2025-03-07'')"
    by (simp add: input_key_def inp_def get_or_def strip_plain parse_date_sample)
  have ex: "\<exists>amt rt. py_float (strip (get_or r ''amount'' '''')) = Some amt
                  \<and> py_float (strip (get_or r ''rate'' '''')) = Some rt
                  \<and> fgt amt 100 \<and> fle rt 10"
    unfolding g strip_plain py_float_samples by (simp add: fgt_def fle_def)
  have "length (filter (\<lambda>f. anomaly_kind (f_issue f) = ''SWAPPED_AMOUNT_RATE'')
                   (row_issues (input_by_refno [inp]) r)) = 1"
    using swapped_flag_on_hours_lines [OF hyp, of "[inp]" "[]"] ex
    by (simp add: k g strip_plain)
  with lt show ?thesis unfolding r_def inp_def by simp
qed

text \<open>
  Claim C7 at an overtime line whose client name holds the word Expenses, for an input
  row without overtime hours and without expenses: the substring tests of the row check
  report the line twice as a zero-driver line, once for the overtime hours and once for
  the expenses.
\<close>

theorem zero_driver_reported_twice:
  "map (\<lambda>f. anomaly_kind (f_issue f))
     (issues_found
        [[''Candidate RefNo'' \<mapsto> ''E1'', ''Weekending'' \<mapsto> ''07/03/2025'',
          ''OT1 Hrs'' \<mapsto> ''0'', ''OT1 Rate'' \<mapsto> ''20'', ''Expenses'' \<mapsto> ''0'']]
        [[''employeeid'' \<mapsto> ''E1'', ''description'' \<mapsto> ''OT1 Hrs - Expenses Team - Dev'',
          ''amount'' \<mapsto> ''5'', ''rate'' \<mapsto> ''20'', ''weekending'' \<mapsto> ''2025-03-07'']])
   = [''ZERO_DRIVER_LINE'', ''ZERO_DRIVER_LINE'']"
proof -
  define r :: row where "r = [''employeeid'' \<mapsto> ''E1'', ''description'' \<mapsto> ''OT1 Hrs - Expenses Team - Dev'',
          ''amount'' \<mapsto> ''5'', ''rate'' \<mapsto> ''20'', ''weekending'' \<mapsto> ''2025-03-07'']"
  define inp :: row where "inp = [''Candidate RefNo'' \<mapsto> ''E1'', ''Weekending'' \<mapsto> ''07/03/2025'',
          ''OT1 Hrs'' \<mapsto> ''0'', ''OT1 Rate'' \<mapsto> ''20'', ''Expenses'' \<mapsto> ''0'']"
  have g: "get_or r ''description'' '''' = ''OT1 Hrs - Expenses Team - Dev''"
    "get_or r ''amount'' '''' = ''5''" "get_or r ''rate'' '''' = ''20''"
    "get_or r ''employeeid'' '''' = ''E1''" "get_or r ''weekending'' '''' = ''2025-03-07''"
    by (simp_all add: r_def get_or_def)
  have gi: "get_or inp ''OT1 Hrs'' ''0'' = ''0''" "get_or inp ''OT1 Rate'' ''0'' = ''20''"
    "get_or inp ''Expenses'' ''0'' = ''0''"
    by (simp_all add: inp_def get_or_def)
  have k: "input_key inp = (''E1'', Some ''2025-03-07'')"
    by (simp add: input_key_def inp_def get_or_def strip_plain parse_date_sample)
  have pn: "parse_num ''0'' = FVal 0" "parse_num ''20'' = FVal 20"
    by (simp_all add: parse_num_def strip_plain py_float_samples)
  have c: "str_contains ''OT1 Hrs - Expenses Team - Dev'' ''OT1 Hrs''"
    "str_contains ''OT1 Hrs - Expenses Team - Dev'' ''Expenses''"
    by (simp_all add: startswith_def)
  have "map (\<lambda>f. anomaly_kind (f_issue f)) (check_pair r inp)
        = [''ZERO_DRIVER_LINE'', ''ZERO_DRIVER_LINE'']"
    unfolding check_pair_def Let_def g gi pn strip_plain py_float_samples
    by (simp add: c feq_def fgt_def fle_def del: str_contains.simps)
  then have "map (\<lambda>f. anomaly_kind (f_issue f)) (issues_found [inp] [r])
        = [''ZERO_DRIVER_LINE'', ''ZERO_DRIVER_LINE'']"
    by (simp add: issues_found_concat row_issues_concat k g strip_plain)
  then show ?thesis unfolding r_def inp_def .
qed

section \<open>Parsing decimals\<close>


















section \<open>Digit strings\<close>

lemma digit_char:
  assumes "d < 10"
  shows "is_digit (char_of (48 + d))" and "digit_val (char_of (48 + d)) = d"
    and "\<not> is_space (char_of (48 + d))"
    and "char_of (48 + d) \<noteq> CHR '',''" and "char_of (48 + d) \<noteq> CHR ''_''"
    and "char_of (48 + d) \<noteq> CHR ''.''" and "char_of (48 + d) \<noteq> CHR ''-''"
    and "char_of (48 + d) \<noteq> CHR ''+''"
    and "lower_char (char_of (48 + d)) = char_of (48 + d)"
    and "char_of (48 + d) = CHR ''0'' \<longleftrightarrow> d = 0"
proof -
  have v: "of_char (char_of (48 + d) :: char) = 48 + d"
    using assms by (simp add: of_char_of)
  show "is_digit (char_of (48 + d))" using assms by (simp add: is_digit_def v)
  show "digit_val (char_of (48 + d)) = d" unfolding digit_val_def v by simp
  show "\<not> is_space (char_of (48 + d))" using assms by (simp add: is_space_def v)
  have ne: "char_of (48 + d) \<noteq> c" if "of_char c \<noteq> 48 + d" for c :: char
    using that v by auto
  show "char_of (48 + d) \<noteq> CHR '',''" by (rule ne) simp
  show "char_of (48 + d) \<noteq> CHR ''_''" using assms by (intro ne) simp
  show "char_of (48 + d) \<noteq> CHR ''.''" by (rule ne) simp
  show "char_of (48 + d) \<noteq> CHR ''-''" by (rule ne) simp
  show "char_of (48 + d) \<noteq> CHR ''+''" by (rule ne) simp
  show "lower_char (char_of (48 + d)) = char_of (48 + d)"
    using assms by (simp add: lower_char_def v)
  show "char_of (48 + d) = CHR ''0'' \<longleftrightarrow> d = 0"
  proof
    assume "char_of (48 + d) = CHR ''0''"
    then have "of_char (char_of (48 + d) :: char) = (of_char CHR ''0'' :: nat)" by simp
    then show "d = 0" unfolding v by simp
  next
    assume "d = 0" then show "char_of (48 + d) = CHR ''0''" by (simp add: char_of_eq_iff)
  qed
qed

lemma is_digit_facts:
  assumes "is_digit c"
  shows "\<not> is_space c" "c \<noteq> CHR '',''" "c \<noteq> CHR ''_''" "c \<noteq> CHR ''.''" "c \<noteq> CHR ''-''"
    "c \<noteq> CHR ''+''" "lower_char c = c" "c \<noteq> CHR ''e''" "c \<noteq> CHR ''E''"
    "c \<noteq> CHR ''i''" "c \<noteq> CHR ''n''" "c \<noteq> CHR ''s''"
  using assms by (auto simp: is_digit_def is_space_def lower_char_def Let_def)

lemma digits_of_nonempty: "digits_of n \<noteq> []"
  by (subst digits_of.simps) simp

lemma digits_of_all_digits: "list_all is_digit (digits_of n)"
proof (induction n rule: digits_of.induct)
  case (1 n)
  show ?case
  proof (cases "n < 10")
    case True
    then show ?thesis by (subst digits_of.simps) (simp add: digit_char)
  next
    case False
    have "n mod 10 < 10" by simp
    with False "1.IH" show ?thesis
      by (subst digits_of.simps) (simp add: digit_char)
  qed
qed

lemma nat_of_digits_snoc: "nat_of_digits (xs @ [c]) = 10 * nat_of_digits xs + digit_val c"
  by (simp add: nat_of_digits_def)

lemma nat_of_digits_digits_of: "nat_of_digits (digits_of n) = n"
proof (induction n rule: digits_of.induct)
  case (1 n)
  show ?case
  proof (cases "n < 10")
    case True
    then show ?thesis
      by (subst digits_of.simps) (simp add: nat_of_digits_def digit_char)
  next
    case False
    have "n mod 10 < 10" by simp
    with False "1.IH" show ?thesis
      by (subst digits_of.simps) (simp add: nat_of_digits_snoc digit_char)
  qed
qed

lemma nat_of_digits_append:
  "nat_of_digits (xs @ ys) = nat_of_digits xs * 10 ^ length ys + nat_of_digits ys"
proof (induction ys rule: rev_induct)
  case Nil
  then show ?case by (simp add: nat_of_digits_def)
next
  case (snoc y ys)
  have "nat_of_digits (xs @ ys @ [y]) = 10 * nat_of_digits (xs @ ys) + digit_val y"
    using nat_of_digits_snoc[of "xs @ ys" y] by simp
  then show ?case using snoc by (simp add: nat_of_digits_snoc algebra_simps)
qed

lemma nat_of_digits_zeros: "nat_of_digits (replicate k CHR ''0'') = 0"
  by (induction k) (simp_all add: nat_of_digits_def digit_val_def)

lemma last_digits_of: "last (digits_of n) = char_of (48 + n mod 10)"
  by (subst digits_of.simps) simp

lemma length_digits_of_le: "0 < k \<Longrightarrow> n < 10 ^ k \<Longrightarrow> length (digits_of n) \<le> k"
proof (induction n arbitrary: k rule: digits_of.induct)
  case (1 n)
  show ?case
  proof (cases "n < 10")
    case True
    with "1.prems" show ?thesis by (subst digits_of.simps) simp
  next
    case False
    with "1.prems" have k: "1 < k" by (cases "k = 1") auto
    then obtain j where j: "k = Suc j" "0 < j" by (cases k) auto
    with "1.prems" have "n div 10 < 10 ^ j"
      by (simp add: less_mult_imp_div_less mult.commute)
    with "1.IH"[OF False j(2)] have "length (digits_of (n div 10)) \<le> j" by simp
    with False j show ?thesis by (subst digits_of.simps) simp
  qed
qed

section \<open>Formatting a decimal and reading it back\<close>

lemma strip_zeros_props:
  "c \<noteq> 0 \<Longrightarrow> strip_zeros c e = (c', e') \<Longrightarrow>
     c' \<noteq> 0 \<and> e \<le> e' \<and> c = c' * 10 ^ nat (e' - e) \<and> (e' < Emax \<longrightarrow> c' mod 10 \<noteq> 0)"
proof (induction c e arbitrary: c' e' rule: strip_zeros.induct)
  case (1 c e)
  show ?case
  proof (cases "c mod 10 = 0 \<and> e < Emax")
    case True
    with "1.prems" have r: "strip_zeros (c div 10) (e + 1) = (c', e')"
      by (subst (asm) strip_zeros.simps) simp
    from True "1.prems" have nz: "c div 10 \<noteq> 0" by auto
    from "1.IH"[OF _ nz r] True "1.prems"
    have ih: "c' \<noteq> 0" "e + 1 \<le> e'" "c div 10 = c' * 10 ^ nat (e' - (e + 1))"
      "e' < Emax \<longrightarrow> c' mod 10 \<noteq> 0" by auto
    have "nat (e' - e) = Suc (nat (e' - (e + 1)))" using ih(2) by simp
    moreover have "c = 10 * (c div 10)" using True by auto
    ultimately have "c = c' * 10 ^ nat (e' - e)" using ih(3) by simp
    with ih show ?thesis by simp
  next
    case False
    with "1.prems" have "(c', e') = (c, e)"
      by (subst (asm) strip_zeros.simps) auto
    with False "1.prems" show ?thesis by auto
  qed
qed

lemma fix_finite_exact:
  assumes "c \<noteq> 0" and "c < 10 ^ prec" and "Etiny \<le> e"
    and "int (length (digits_of c)) + e - 1 \<le> Emax"
  shows "fix_finite c e = Inr (c, e)"
proof -
  have "length (digits_of c) \<le> prec"
    using assms(2) by (intro length_digits_of_le) (simp_all add: prec_def)
  with assms show ?thesis
    unfolding fix_finite_def Let_def Etop_def by simp
qed

lemma format_f_nonneg:
  assumes "c \<noteq> 0" and "0 \<le> e"
  shows "format_f (Finite s c e)
         = (if s then ''-'' else []) @ digits_of c @ replicate (nat e) CHR ''0''"
proof (cases "e = 0")
  case True
  then show ?thesis
    using assms digits_of_nonempty[of c] by (simp add: format_f_def Let_def)
next
  case False
  with assms have "0 < e" by simp
  then show ?thesis
    using assms by (simp add: format_f_def Let_def)
qed

lemma format_f_neg:
  assumes "c \<noteq> 0" and "e < 0"
  shows "\<exists>ip fp. format_f (Finite s c e) = (if s then ''-'' else []) @ ip @ ''.'' @ fp
           \<and> ip \<noteq> [] \<and> list_all is_digit ip \<and> list_all is_digit fp \<and> fp \<noteq> []
           \<and> int (length fp) = - e \<and> nat_of_digits (ip @ fp) = c
           \<and> last fp = last (digits_of c)"
proof -
  define ds where "ds = digits_of c"
  have ds: "ds \<noteq> []" "list_all is_digit ds" "nat_of_digits ds = c"
    by (simp_all add: ds_def digits_of_nonempty digits_of_all_digits nat_of_digits_digits_of)
  define dp where "dp = int (length ds) + e"
  have z: "is_digit CHR ''0''" by (simp add: is_digit_def)
  have zero_front: "nat_of_digits (''0'' @ xs) = nat_of_digits xs" for xs
    by (simp add: nat_of_digits_def digit_val_def)
  show ?thesis
  proof (cases "dp < 0")
    case True
    let ?fp = "replicate (nat (- dp)) CHR ''0'' @ ds"
    have f: "format_f (Finite s c e) = (if s then ''-'' else []) @ ''0'' @ ''.'' @ ?fp"
      using assms True ds(1) by (simp add: format_f_def Let_def ds_def[symmetric] dp_def[symmetric])
    have v: "nat_of_digits (''0'' @ ?fp) = c"
      unfolding zero_front using ds(3) by (simp add: nat_of_digits_append nat_of_digits_zeros)
    have l: "int (length ?fp) = - e" using True by (simp add: dp_def)
    have d2: "list_all is_digit ?fp" using ds(2) z by (auto simp: list_all_iff)
    have la: "last ?fp = last ds" using ds(1) by simp
    have ipne: "''0'' \<noteq> []" by simp
    have d1: "list_all is_digit ''0''" using z by simp
    have fpne: "?fp \<noteq> []" using ds(1) by simp
    show ?thesis
      using f ipne d1 d2 fpne l v la unfolding ds_def by blast
  next
    case False
    then have dp: "0 \<le> dp" "dp < int (length ds)" using assms(2) by (simp_all add: dp_def)
    let ?tk = "take (nat dp) ds"
    let ?ip = "if ?tk = [] then ''0'' else ?tk"
    let ?fp = "drop (nat dp) ds"
    have fpne: "?fp \<noteq> []" using dp by simp
    have f: "format_f (Finite s c e) = (if s then ''-'' else []) @ ?ip @ ''.'' @ ?fp"
      using assms dp fpne
      by (simp add: format_f_def Let_def ds_def[symmetric] dp_def[symmetric])
    have v: "nat_of_digits (?ip @ ?fp) = c"
    proof (cases "?tk = []")
      case True
      with ds(1) have "nat dp = 0" by (metis take_eq_Nil)
      then have "?fp = ds" by simp
      with True show ?thesis using zero_front[of ds] ds(3) by simp
    next
      case False
      then show ?thesis using ds(3) by simp
    qed
    have l: "int (length ?fp) = - e" using dp by (simp add: dp_def)
    have d1: "list_all is_digit ?ip"
      using ds(2) z by (auto simp: list_all_iff dest: in_set_takeD)
    have d2: "list_all is_digit ?fp"
      using ds(2) by (auto simp: list_all_iff dest: in_set_dropD)
    have la: "last ?fp = last ds" using dp by simp
    have ipne: "?ip \<noteq> []" by simp
    show ?thesis
      using f ipne d1 d2 fpne l v la unfolding ds_def by blast
  qed
qed

lemma rstrip_char_noop: "t \<noteq> [] \<Longrightarrow> last t \<noteq> c \<Longrightarrow> rstrip_char c t = t"
  by (cases t rule: rev_cases) (simp_all add: rstrip_char_def)

lemma literal_of_plain:
  assumes "list_all is_digit ip" and "list_all is_digit fp"
  shows "literal_of (ip @ (if fp = [] then [] else ''.'' @ fp)) = Some (ip, fp, fp \<noteq> [], 0)"
proof -
  have ip: "\<And>x. x \<in> set ip \<Longrightarrow> is_digit x" using assms(1) by (simp add: list_all_iff)
  have fp: "takeWhile is_digit fp = fp" "dropWhile is_digit fp = []"
    using assms(2) by (simp_all add: list_all_iff)
  have nd: "\<not> is_digit CHR ''.''" by (simp add: is_digit_def)
  show ?thesis
  proof (cases "fp = []")
    case True
    have tw: "takeWhile is_digit ip = ip" "dropWhile is_digit ip = []"
      using ip by simp_all
    show ?thesis using True by (simp add: literal_of_def Let_def tw)
  next
    case False
    have tw: "takeWhile is_digit (ip @ ''.'' @ fp) = ip"
      using ip nd by (simp add: takeWhile_append2)
    have dw: "dropWhile is_digit (ip @ ''.'' @ fp) = ''.'' @ fp"
      using ip nd by (simp add: dropWhile_append2)
    show ?thesis using False unfolding literal_of_def Let_def
      by (simp only: if_False tw dw) (simp add: fp)
  qed
qed

lemma parse_decimal_plain_text:
  assumes "ip \<noteq> []" and "list_all is_digit ip" and "list_all is_digit fp"
  shows "parse_decimal ((if s then ''-'' else []) @ ip @ (if fp = [] then [] else ''.'' @ fp))
         = Inr (Finite s (nat_of_digits (ip @ fp)) (- int (length fp)))"
proof -
  define B where "B = ip @ (if fp = [] then [] else ''.'' @ fp)"
  define T where "T = (if s then ''-'' else []) @ B"
  have ipd: "\<And>x. x \<in> set ip \<Longrightarrow> is_digit x" using assms(2) by (simp add: list_all_iff)
  have fpd: "\<And>x. x \<in> set fp \<Longrightarrow> is_digit x" using assms(3) by (simp add: list_all_iff)
  have Bne: "B \<noteq> []" using assms(1) by (simp add: B_def)
  have hdB: "is_digit (hd B)" using assms(1) ipd by (simp add: B_def)
  have chars: "x = CHR ''-'' \<or> x = CHR ''.'' \<or> is_digit x" if "x \<in> set T" for x
    using that ipd fpd by (auto simp: T_def B_def split: if_splits)
  have lastB: "is_digit (last B)"
    using assms(1) ipd fpd by (auto simp: B_def)
  have hdT: "\<not> is_space (hd T)"
    using Bne hdB is_digit_facts(1)[of "hd B"] by (auto simp: T_def is_space_def)
  have lastT: "\<not> is_space (last T)"
    using Bne lastB is_digit_facts(1)[of "last B"] by (simp add: T_def)
  have sT: "strip T = T" using hdT lastT by (intro strip_fixed) simp
  have fc: "filter (\<lambda>c. c \<noteq> CHR '','') T = T"
  proof (rule filter_True, rule ballI)
    fix x assume "x \<in> set T"
    from chars[OF this] show "x \<noteq> CHR '',''" using is_digit_facts(2)[of x] by auto
  qed
  have fu: "filter (\<lambda>c. c \<noteq> CHR ''_'') T = T"
  proof (rule filter_True, rule ballI)
    fix x assume "x \<in> set T"
    from chars[OF this] show "x \<noteq> CHR ''_''" using is_digit_facts(3)[of x] by auto
  qed
  have ts: "take_sign T = (s, B)"
  proof (cases s)
    case True
    then show ?thesis by (simp add: T_def take_sign_def)
  next
    case False
    obtain b bs where b: "B = b # bs" using Bne by (cases B) auto
    with hdB have "is_digit b" by simp
    then have "b \<noteq> CHR ''-''" "b \<noteq> CHR ''+''"
      using is_digit_facts(5,6)[of b] by auto
    with False b show ?thesis by (simp add: T_def take_sign_def)
  qed
  have lowB: "lower B = B"
  proof -
    have "lower_char x = x" if "x \<in> set B" for x
    proof -
      from that have "x \<in> set T" by (simp add: T_def)
      from chars[OF this] show ?thesis
        using is_digit_facts(7)[of x] by (auto simp: lower_char_def)
    qed
    then show ?thesis unfolding lower_def by (simp add: map_idI)
  qed
  obtain b bs where b: "B = b # bs" using Bne by (cases B) auto
  with hdB have bd: "is_digit b" by simp
  have n1: "lower B \<noteq> ''inf''" "lower B \<noteq> ''infinity''"
    unfolding lowB using b bd is_digit_facts(10)[of b] by auto
  have lowtake: "lower (take n B) = take n B" for n
    using lowB unfolding lower_def by (metis take_map)
  have n2: "lower (take 3 B) \<noteq> ''nan''"
    unfolding lowtake using b bd is_digit_facts(11)[of b] by auto
  have n3: "lower (take 4 B) \<noteq> ''snan''"
    unfolding lowtake using b bd is_digit_facts(12)[of b] by auto
  have lit: "literal_of B = Some (ip, fp, fp \<noteq> [], 0)"
    unfolding B_def using assms(2,3) by (rule literal_of_plain)
  have "Decimal_of T = Inr (Finite s (nat_of_digits (ip @ fp)) (- int (length fp)))"
    unfolding Decimal_of_def sT fu ts using n1 n2 n3 lit assms(1) by simp
  moreover have "T \<noteq> []" using Bne by (simp add: T_def)
  ultimately have "parse_decimal T = Inr (Finite s (nat_of_digits (ip @ fp)) (- int (length fp)))"
    unfolding parse_decimal_def Let_def sT fc by simp
  then show ?thesis unfolding T_def B_def .
qed

lemma fmt_decimal_zero:
  "fmt_decimal (Finite s 0 e) = Inr ((if s then ''-'' else []) @ ''0'')"
proof -
  have d0: "digits_of 0 = ''0''" by (subst digits_of.simps) (simp add: char_of_eq_iff)
  have "normalize_dec (Finite s 0 e) = Inr (Finite s 0 0)"
    by (simp add: normalize_dec_def fix_finite_def)
  moreover have "format_f (Finite s 0 0) = (if s then ''-'' else []) @ ''0''"
    by (simp add: format_f_def d0)
  ultimately show ?thesis by (simp add: fmt_decimal_def)
qed

lemma roundtrip_zero:
  "\<exists>t d'. fmt_decimal (Finite s 0 e) = Inr t \<and> parse_decimal t = Inr d'
      \<and> dec_eq d' (Finite s 0 e) = Inr True"
proof -
  have z: "''0'' \<noteq> []" "list_all is_digit ''0''" "list_all is_digit []"
    by (simp_all add: is_digit_def)
  have "parse_decimal ((if s then ''-'' else []) @ ''0'')
        = Inr (Finite s (nat_of_digits ''0'') 0)"
    using parse_decimal_plain_text[OF z, of s] by simp
  then have "parse_decimal ((if s then ''-'' else []) @ ''0'') = Inr (Finite s 0 0)"
    by (simp add: nat_of_digits_def digit_val_def)
  moreover have "dec_eq (Finite s 0 0) (Finite s 0 e) = Inr True"
    by (simp add: dec_eq_def)
  ultimately show ?thesis using fmt_decimal_zero[of s e] by blast
qed

lemma roundtrip_infinity:
  "\<exists>t d'. fmt_decimal (Infinity s) = Inr t \<and> parse_decimal t = Inr d'
      \<and> dec_eq d' (Infinity s) = Inr True"
proof -
  have f: "fmt_decimal (Infinity s) = Inr ((if s then ''-'' else []) @ ''Infinity'')"
    by (simp add: fmt_decimal_def normalize_dec_def format_f_def)
  have st: "strip ''Infinity'' = ''Infinity''" "strip ''-Infinity'' = ''-Infinity''"
    by (simp_all add: strip_def is_space_def)
  have "parse_decimal ((if s then ''-'' else []) @ ''Infinity'') = Inr (Infinity s)"
    by (cases s)
      (simp_all add: parse_decimal_def Decimal_of_def st take_sign_def lower_def lower_char_def
        char_of_eq_iff)
  moreover have "dec_eq (Infinity s) (Infinity s) = Inr True" by (simp add: dec_eq_def)
  ultimately show ?thesis using f by blast
qed

lemma Emax_pos: "0 < Emax" by (simp add: Emax_def)

lemma roundtrip_nonzero:
  assumes "c \<noteq> 0" and "c < 10 ^ prec" and "Etiny \<le> e"
    and "int (length (digits_of c)) + e - 1 \<le> Emax"
  shows "\<exists>t d'. fmt_decimal (Finite s c e) = Inr t \<and> parse_decimal t = Inr d'
      \<and> dec_eq d' (Finite s c e) = Inr True"
proof -
  obtain c' e' where sz: "strip_zeros c e = (c', e')" by (cases "strip_zeros c e")
  from strip_zeros_props[OF assms(1) sz]
  have p: "c' \<noteq> 0" "e \<le> e'" "c = c' * 10 ^ nat (e' - e)" "e' < Emax \<longrightarrow> c' mod 10 \<noteq> 0"
    by auto
  have n: "normalize_dec (Finite s c e) = Inr (Finite s c' e')"
    using fix_finite_exact[OF assms] assms(1) sz by (simp add: normalize_dec_def)
  let ?sg = "if s then ''-'' else []"
  let ?ds = "digits_of c'"
  have dsd: "list_all is_digit ?ds" "?ds \<noteq> []"
    by (simp_all add: digits_of_all_digits digits_of_nonempty)
  show ?thesis
  proof (cases "0 \<le> e'")
    case True
    let ?ip = "?ds @ replicate (nat e') CHR ''0''"
    have f: "format_f (Finite s c' e') = ?sg @ ?ip"
      using format_f_nonneg[OF p(1) True] by simp
    have ipd: "list_all is_digit ?ip"
      using dsd(1) by (auto simp: list_all_iff is_digit_def)
    have nodot: "CHR ''.'' \<notin> set (?sg @ ?ip)"
      using ipd is_digit_facts(4) by (auto simp: list_all_iff)
    have ne: "?sg @ ?ip \<noteq> []" using dsd(2) by simp
    have fm: "fmt_decimal (Finite s c e) = Inr (?sg @ ?ip)"
      unfolding fmt_decimal_def n using f nodot ne by (simp add: Let_def)
    have ipne: "?ip \<noteq> []" using dsd(2) by simp
    have "parse_decimal (?sg @ ?ip) = Inr (Finite s (nat_of_digits ?ip) 0)"
      using parse_decimal_plain_text[OF ipne ipd, of "[]" s] by simp
    moreover have "nat_of_digits ?ip = c' * 10 ^ nat e'"
      by (simp add: nat_of_digits_append nat_of_digits_zeros nat_of_digits_digits_of)
    moreover have "dec_eq (Finite s (c' * 10 ^ nat e') 0) (Finite s c e) = Inr True"
    proof (cases "e \<le> 0")
      case le: True
      have "nat e' + nat (- e) = nat (e' - e)" using True le by simp
      then have "c' * 10 ^ nat e' * 10 ^ nat (- e) = c' * 10 ^ nat (e' - e)"
        by (simp add: power_add[symmetric])
      with le p(1) p(3) assms(1) show ?thesis by (simp add: dec_eq_def min_def)
    next
      case gt: False
      have "nat (e' - e) + nat e = nat e'" using p(2) gt by simp
      then have "c' * 10 ^ nat (e' - e) * 10 ^ nat e = c' * 10 ^ nat e'"
        by (simp add: power_add[symmetric])
      with gt p(1) p(3) assms(1) show ?thesis by (simp add: dec_eq_def min_def)
    qed
    ultimately show ?thesis using fm by auto
  next
    case False
    then have neg: "e' < 0" by simp
    with Emax_pos p(4) have m10: "c' mod 10 \<noteq> 0" by simp
    obtain ip fp where t: "format_f (Finite s c' e') = ?sg @ ip @ ''.'' @ fp"
      and ip: "ip \<noteq> []" "list_all is_digit ip" and fp: "list_all is_digit fp" "fp \<noteq> []"
      and len: "int (length fp) = - e'" and val: "nat_of_digits (ip @ fp) = c'"
      and la: "last fp = last ?ds"
      using format_f_neg[OF p(1) neg, of s] by blast
    let ?t = "?sg @ ip @ ''.'' @ fp"
    have lastt: "last ?t = char_of (48 + c' mod 10)"
      using fp(2) la by (simp add: last_digits_of)
    have m: "c' mod 10 < 10" by simp
    have l0: "last ?t \<noteq> CHR ''0''"
      unfolding lastt using digit_char(10)[OF m] m10 by simp
    have l1: "last ?t \<noteq> CHR ''.''"
      unfolding lastt using digit_char(6)[OF m] by simp
    have tne: "?t \<noteq> []" by simp
    have dot: "CHR ''.'' \<in> set ?t" by simp
    have "rstrip_char CHR ''.'' (rstrip_char CHR ''0'' ?t) = ?t"
      using rstrip_char_noop[OF tne l0] rstrip_char_noop[OF tne l1] by simp
    then have fm: "fmt_decimal (Finite s c e) = Inr ?t"
      unfolding fmt_decimal_def n using t dot tne by (simp add: Let_def)
    have "parse_decimal ?t = Inr (Finite s c' e')"
      using parse_decimal_plain_text[OF ip fp(1), of s] fp(2) val len by simp
    moreover have "dec_eq (Finite s c' e') (Finite s c e) = Inr True"
      using p(1) p(2) p(3) assms(1) by (simp add: dec_eq_def min_def)
    ultimately show ?thesis using fm by blast
  qed
qed

text \<open>
  Claim C5, as the code has it: formatting and parsing give back an equal decimal for
  every zero, for every finite decimal whose coefficient has at most 28 digits and whose
  exponents fit the default arithmetic context, and for the infinities.
\<close>

theorem fmt_parse_roundtrip:
  assumes "c = 0 \<or> (c < 10 ^ prec \<and> Etiny \<le> e \<and> int (length (digits_of c)) + e - 1 \<le> Emax)"
  shows "(\<exists>t d'. fmt_decimal (Finite s c e) = Inr t \<and> parse_decimal t = Inr d'
            \<and> dec_eq d' (Finite s c e) = Inr True)
    \<and> (\<exists>t d'. fmt_decimal (Infinity s) = Inr t \<and> parse_decimal t = Inr d'
            \<and> dec_eq d' (Infinity s) = Inr True)"
proof (cases "c = 0")
  case True
  then show ?thesis using roundtrip_zero[of s e] roundtrip_infinity[of s] by simp
next
  case False
  with assms have "c < 10 ^ prec" "Etiny \<le> e" "int (length (digits_of c)) + e - 1 \<le> Emax"
    by auto
  from roundtrip_nonzero[OF False this] roundtrip_infinity[of s] show ?thesis by blast
qed

lemma digits_of_255: "digits_of 255 = ''255''"
  by (simp add: digits_of.simps char_of_eq_iff)

lemma strip_zeros_255: "strip_zeros 255 (- 1) = (255, - 1)"
  by (subst strip_zeros.simps) simp

lemma fmt_decimal_25_5: "fmt_decimal (Finite False 255 (- 1)) = Inr ''25.5''"
  by (simp add: fmt_decimal_def normalize_dec_def fix_finite_def digits_of_255 prec_def Etop_def
      Etiny_def Emax_def Emin_def strip_zeros_255 format_f_def rstrip_char_def Let_def)

theorem fmt_parse_roundtrip_witness:
  "(255::nat) < 10 ^ prec \<and> Etiny \<le> - 1 \<and> int (length (digits_of 255)) + (- 1) - 1 \<le> Emax
   \<and> fmt_decimal (Finite False 255 (- 1)) = Inr ''25.5''
   \<and> (\<exists>d'. parse_decimal ''25.5'' = Inr d' \<and> dec_eq d' (Finite False 255 (- 1)) = Inr True)"
proof -
  have h: "(255::nat) < 10 ^ prec \<and> Etiny \<le> - 1
      \<and> int (length (digits_of 255)) + (- 1) - 1 \<le> Emax"
    by (simp add: prec_def Etiny_def Emin_def Emax_def digits_of_255)
  then have "(255::nat) = 0 \<or> ((255::nat) < 10 ^ prec \<and> Etiny \<le> - 1
      \<and> int (length (digits_of 255)) + (- 1) - 1 \<le> Emax)" by blast
  from fmt_parse_roundtrip [OF this, of False]
  have "\<exists>d'. parse_decimal ''25.5'' = Inr d' \<and> dec_eq d' (Finite False 255 (- 1)) = Inr True"
    unfolding fmt_decimal_25_5 by auto
  with h fmt_decimal_25_5 show ?thesis by blast
qed

lemma digits_of_29: "length (digits_of 10000000000000000000000000001) = 29"
  by (simp add: digits_of.simps)

lemma digits_of_28: "length (digits_of 1000000000000000000000000000) = 28"
  by (simp add: digits_of.simps)

lemma strip_zeros_28: "strip_zeros 1000000000000000000000000000 (- 27) = (1, 0)"
  by (simp add: strip_zeros.simps Emax_def)

theorem fmt_parse_roundtrip_counterexample:
  "fmt_decimal (Finite False 10000000000000000000000000001 (- 28)) = Inr ''1''
   \<and> parse_decimal ''1'' = Inr (Finite False 1 0)
   \<and> dec_eq (Finite False 1 0) (Finite False 10000000000000000000000000001 (- 28)) = Inr False"
proof -
  have d1: "digits_of (Suc 0) = ''1''" by (simp add: digits_of.simps char_of_eq_iff)
  have "fix_finite 10000000000000000000000000001 (- 28)
        = Inr (1000000000000000000000000000, - 27)"
    by (simp add: fix_finite_def digits_of_29 digits_of_28 prec_def Etop_def Etiny_def Emax_def
        Emin_def round_half_even_def Let_def)
  then have "normalize_dec (Finite False 10000000000000000000000000001 (- 28)) = Inr (Finite False 1 0)"
    by (simp add: normalize_dec_def strip_zeros_28)
  then have "fmt_decimal (Finite False 10000000000000000000000000001 (- 28)) = Inr ''1''"
    by (simp add: fmt_decimal_def format_f_def d1 Let_def)
  moreover have "parse_decimal ''1'' = Inr (Finite False 1 0)"
    by (simp add: parse_decimal_def Decimal_of_def strip_def is_space_def take_sign_def lower_def
        lower_char_def literal_of_def is_digit_def nat_of_digits_def digit_val_def)
  moreover have "dec_eq (Finite False 1 0) (Finite False 10000000000000000000000000001 (- 28))
        = Inr False"
    by (simp add: dec_eq_def)
  ultimately show ?thesis by blast
qed

section \<open>Week-ending dates\<close>

lemma strip_dates:
  "strip ''01/01/69'' = ''01/01/69''" "strip ''05/03/25'' = ''05/03/25''"
  "strip ''2024-12-31'' = ''2024-12-31''" "strip ''not a date'' = ''not a date''"
  "strip ''07/03/2025'' = ''07/03/2025''"
  by (simp_all add: strip_def is_space_def)

lemma digits_of_samples:
  "digits_of (Suc 0) = ''1''" "digits_of 3 = ''3''" "digits_of 5 = ''5''" "digits_of 7 = ''7''"
  "digits_of 12 = ''12''" "digits_of 31 = ''31''"
  "digits_of 1969 = ''1969''" "digits_of 2024 = ''2024''" "digits_of 2025 = ''2025''"
  by (simp_all add: digits_of.simps char_of_eq_iff)

text \<open>
  Claim C4 at the two-digit year 69: the converter's \<^verbatim>\<open>%y\<close> directive reads it as
  1969, not as 2069.
\<close>

theorem parse_weekending_year_69:
  "parse_weekending ''01/01/69'' = ''1969-01-01''"
  by (simp add: parse_weekending_def strip_dates strptime_def day_field_def month_field_def
      year_field_def is_digit19_def is_digit_def digit_val_def nat_of_digits_def valid_date_def
      days_in_month_def isoformat_def pad_zeros_def digits_of_samples)


section \<open>The lines of one converted row\<close>

















text \<open>
  The numbers the theorem asks for include every finite decimal whose adjusted exponent
  is below the largest exponent of the context.
\<close>

lemma finite_formats:
  assumes "c = 0 \<or> int (length (digits_of c)) + e \<le> Emax"
  shows "\<exists>t. fmt_decimal (Finite s c e) = Inr t"
proof -
  have "\<exists>c' e'. fix_finite c e = Inr (c', e')"
  proof (cases "c = 0")
    case True
    then show ?thesis by (simp add: fix_finite_def)
  next
    case False
    with assms have le: "int (length (digits_of c)) + e \<le> Emax" by simp
    have t: "Etiny < Etop" by (simp add: Etiny_def Etop_def Emin_def Emax_def)
    show ?thesis
      using False le t unfolding fix_finite_def Let_def Etop_def
      by (auto split: prod.splits)
  qed
  then obtain c' e' where "fix_finite c e = Inr (c', e')" by blast
  then have "\<exists>n. normalize_dec (Finite s c e) = Inr n"
    by (simp add: normalize_dec_def split: prod.splits)
  then show ?thesis by (auto simp: fmt_decimal_def Let_def)
qed

section \<open>The analyzer's expectation against the converter's output\<close>

















end
